theory Spec2Isabelle
  imports Main "HOL-Library.Word"
begin

unbundle bit_operations_syntax

section \<open>Machine types\<close>

type_synonym u8 = "8 word"
type_synonym u32 = "32 word"
type_synonym u64 = "64 word"

text \<open>
  A C object is read and written through its byte image.  The target is x86-64, so a
  scalar of \<open>n\<close> bytes is stored least significant byte first.
\<close>

definition le_bytes :: "nat \<Rightarrow> 'a::len word \<Rightarrow> u8 list" where
  "le_bytes n w = map (\<lambda>i. ucast (drop_bit (8 * i) w)) [0..<n]"

text \<open>
  The memory behind a pointer to the first byte of a block \<open>bs\<close>: the block's bytes, and
  zero past its end.
\<close>

definition bytes_at :: "u8 list \<Rightarrow> nat \<Rightarrow> u8" where
  "bytes_at bs i = (if i < length bs then bs ! i else 0)"

section \<open>User library: wire records (ulib.h)\<close>

definition EVENT_DATA_SIZE :: nat where
  "EVENT_DATA_SIZE = 224"

definition MAX_ROUTING_STEPS :: nat where
  "MAX_ROUTING_STEPS = 8"

text \<open>
  \<^verbatim>\<open>typedef struct __attribute__((packed)) { uint64_t id; uint64_t user_id; uint32_t type;
  uint32_t _pad; uint64_t timestamp; uint8_t route[MAX_ROUTING_STEPS];
  uint8_t data[EVENT_DATA_SIZE]; } Event;\<close>
  The two arrays have a fixed extent, so they are functions from the index; only the
  indices below the extent are ever read.
\<close>

record Event =
  ev_id :: u64
  user_id :: u64
  ev_type :: u32
  ev_pad :: u32
  timestamp :: u64
  route :: "nat \<Rightarrow> u8"
  data :: "nat \<Rightarrow> u8"

text \<open>The packed struct in memory: the fields in declaration order, no padding.\<close>

definition event_bytes :: "Event \<Rightarrow> u8 list" where
  "event_bytes e =
     le_bytes 8 (ev_id e) @ le_bytes 8 (user_id e) @ le_bytes 4 (ev_type e) @
     le_bytes 4 (ev_pad e) @ le_bytes 8 (timestamp e) @
     map (route e) [0..<MAX_ROUTING_STEPS] @ map (data e) [0..<EVENT_DATA_SIZE]"

text \<open>Byte offset of \<open>data[0]\<close> inside the struct.\<close>

definition data_offset :: nat where
  "data_offset = 8 + 8 + 4 + 4 + 8 + MAX_ROUTING_STEPS"

text \<open>
  \<^verbatim>\<open>typedef struct __attribute__((packed)) { uint64_t event_id; uint64_t workflow_id;
  uint32_t status; uint32_t error_code; uint64_t timestamp; void* result_data;
  uint64_t result_size; uint8_t completed_prefix; uint8_t padding[7]; } Response;\<close>
\<close>

definition sizeof_Response :: nat where
  "sizeof_Response = 8 + 8 + 4 + 4 + 8 + 8 + 8 + 1 + 7"

section \<open>User library: ring transport (ulib.c)\<close>

text \<open>
  \<open>EventRing\<close> and \<open>ResponseRing\<close> have the same shape: the two counters and 256
  slots.  A slot is kept as its byte image, because \<open>push_event\<close> and
  \<open>pop_response\<close> copy slots as raw quadwords.
\<close>

record ring =
  head :: u64
  tail :: u64
  slots :: "nat \<Rightarrow> u8 list"

text \<open>One iteration of \<^verbatim>\<open>dst[i] = src[i]\<close> on \<open>uint64_t*\<close>: bytes \<open>8i .. 8i+7\<close>.\<close>

definition copy_qword :: "u8 list \<Rightarrow> nat \<Rightarrow> u8 list \<Rightarrow> u8 list" where
  "copy_qword src i dst = take (8 * i) dst @ take 8 (drop (8 * i) src) @ drop (8 * i + 8) dst"

text \<open>\<^verbatim>\<open>for (int i = 0; i < n; i++) dst[i] = src[i];\<close>\<close>

definition copy_qwords :: "nat \<Rightarrow> u8 list \<Rightarrow> u8 list \<Rightarrow> u8 list" where
  "copy_qwords n src dst = fold (copy_qword src) [0..<n] dst"

text \<open>
  \<open>push_event\<close>: returns 0 and leaves the ring alone when \<open>tail - head >= 256\<close>
  (unsigned 64-bit subtraction); otherwise copies 32 quadwords of the event into slot
  \<open>tail & 0xFF\<close>, then publishes \<open>tail + 1\<close>.
\<close>

definition push_event :: "Event \<Rightarrow> ring \<Rightarrow> int \<times> ring" where
  "push_event ev r =
     (let tl = tail r; hd = head r in
      if tl - hd \<ge> 256 then (0, r)
      else
        let idx = unat (tl AND 0xFF);
            slot = copy_qwords 32 (event_bytes ev) (slots r idx)
        in (1, r\<lparr>slots := (slots r)(idx := slot), tail := tl + 1\<rparr>))"

text \<open>
  \<open>pop_response\<close>: returns 0 when \<open>head >= tail\<close>; otherwise copies
  \<open>sizeof(Response)/8\<close> quadwords of slot \<open>head & 0xFF\<close> into the caller's buffer and
  publishes \<open>head + 1\<close>.  The second component is the caller's buffer afterwards.
\<close>

definition pop_response :: "u8 list \<Rightarrow> ring \<Rightarrow> int \<times> u8 list \<times> ring" where
  "pop_response resp r =
     (let hd = head r; tl = tail r in
      if hd \<ge> tl then (0, resp, r)
      else
        let idx = unat (hd AND 0xFF);
            resp' = copy_qwords (sizeof_Response div 8) (slots r idx) resp
        in (1, resp', r\<lparr>head := hd + 1\<rparr>))"

text \<open>
  The library's globals: \<open>event_ring\<close> and \<open>response_ring\<close>, the two rings shared with the
  kernel at \<open>EVENT_RING_ADDR\<close> and \<open>RESULT_RING_ADDR\<close>, and the event counter.
  \<open>push_event\<close> works on \<open>event_ring\<close> only and \<open>pop_response\<close> on \<open>response_ring\<close> only.
\<close>

record ulib_state =
  event_ring :: ring
  response_ring :: ring
  next_event_id :: u64





section \<open>Kernel: what the hardware deck is given (deck_interface.h, klib.h, vga.h)\<close>

text \<open>
  \<open>hardware_deck.c\<close> includes headers that declare the routing entry, the status, result
  and error enumerations, the deck interface and the drivers.  The enumerations are
  datatypes here: one constructor for each enumerator the deck names.
\<close>

datatype event_status =
  EVENT_STATUS_PENDING | EVENT_STATUS_PROCESSING | EVENT_STATUS_COMPLETED |
  EVENT_STATUS_ERROR | EVENT_STATUS_SUSPENDED

datatype result_type =
  RESULT_TYPE_NONE | RESULT_TYPE_VALUE | RESULT_TYPE_STATIC | RESULT_TYPE_KMALLOC

datatype error_code =
  ERROR_INVALID_PARAMETER | ERROR_HW_TIMER_SLOTS_FULL | ERROR_HW_TIMER_NOT_FOUND |
  ERROR_OUT_OF_MEMORY | ERROR_NOT_IMPLEMENTED

text \<open>
  The \<open>void* result\<close> handed to \<open>deck_complete\<close>: an integer cast to a pointer (0 is
  the null pointer), the address of a slot of the timer table, or a block obtained from
  \<open>kmalloc\<close>, kept with its contents.
\<close>

datatype result_data = Value u64 | Timer_ref nat | Buffer "u8 list"

text \<open>
  \<open>RoutingEntry\<close>: the fields the deck touches (\<open>event_id\<close>, \<open>event_copy\<close>, \<open>state\<close>), and
  whether the router's pool slot has been released.  A \<open>RoutingEntry*\<close> is an address;
  0 is the null pointer.
\<close>

record RoutingEntry =
  event_id :: u64
  event_copy :: Event
  state :: event_status
  slot_free :: bool

datatype status_code = STATUS_SUCCESS | STATUS_FAILURE

text \<open>The Response the router sends back (spec, section 3), kernel side.\<close>

record Response =
  resp_event_id :: u64
  resp_workflow_id :: u64
  resp_status :: status_code
  resp_error :: "error_code option"
  resp_result :: result_data
  resp_result_kind :: result_type
  resp_deck :: u8
  resp_message :: string

text \<open>A call into the deck interface, with the entry it was made on.\<close>

datatype deck_call =
  Deck_complete nat u8 result_data result_type
| Deck_error nat u8 error_code string

text \<open>A call into the VGA driver.\<close>

datatype vga_call =
  Vga_print_char u8 u8
| Vga_print_newline
| Vga_update_cursor
| Vga_clear_screen
| Vga_set_current_loc u32
| Vga_set_cursor_position u32 u32

definition VGA_DEFAULT :: u8 where
  "VGA_DEFAULT = (push_bit 4 0x0) OR 0x7"

definition VGA_INPUT :: u8 where
  "VGA_INPUT = (push_bit 4 0x0) OR 0xF"

text \<open>
  \<^verbatim>\<open>typedef struct { uint64_t id; uint64_t owner_workflow_id; uint64_t expiration;
  uint64_t interval; uint64_t event_id; RoutingEntry* suspended_entry; int active; } Timer;\<close>
  \<open>active\<close> is only ever assigned 0 or 1 and only tested for zero, so it is a boolean.
\<close>

record Timer =
  timer_id :: u64
  owner_workflow_id :: u64
  expiration :: u64
  interval :: u64
  timer_event_id :: u64
  suspended_entry :: nat
  active :: bool

definition MAX_TIMERS :: nat where
  "MAX_TIMERS = 64"

text \<open>
  The state the deck works on: the timer table and the id counter (the statics of
  \<open>hardware_deck.c\<close>), the memory holding routing entries, and what the deck's
  collaborators have received so far: Responses sent, calls into the deck interface,
  calls into the VGA driver, and the keys the keyboard driver still has to deliver.
  \<open>kprintf\<close> output is diagnostic only and is left out.
\<close>

record hw_state =
  timers :: "nat \<Rightarrow> Timer"
  next_timer_id :: u64
  entries :: "nat \<Rightarrow> RoutingEntry"
  responses :: "Response list"
  deck_log :: "deck_call list"
  vga :: "vga_call list"
  keyboard :: "u8 list"

text \<open>
  The constants and helper functions that \<open>hardware_deck.c\<close> uses and the sources at
  hand do not define are parameters of the model, with no value assumed: the seven event
  type numbers of kernel \<open>events.h\<close> that \<open>ulib.h\<close> does not repeat; the deck's prefix;
  the value \<open>atomic_increment_u64\<close> returns for a given old counter value (the counter
  itself goes up by one); the VGA driver's position queries, which depend on the calls
  it has received; and \<open>kmalloc\<close>, which for a size yields a fresh block with some
  initial contents, or nothing (the null pointer).
\<close>

record hw_env =
  EVENT_TIMER_CREATE :: u32
  EVENT_TIMER_CANCEL :: u32
  EVENT_TIMER_GETTICKS :: u32
  EVENT_DEV_OPEN :: u32
  EVENT_DEV_IOCTL :: u32
  EVENT_DEV_READ :: u32
  EVENT_DEV_WRITE :: u32
  DECK_PREFIX_HARDWARE :: u8
  atomic_increment_u64 :: "u64 \<Rightarrow> u64"
  vga_get_current_loc :: "vga_call list \<Rightarrow> u32"
  vga_get_cursor_position_x :: "vga_call list \<Rightarrow> u32"
  vga_get_cursor_position_y :: "vga_call list \<Rightarrow> u32"
  kmalloc :: "nat \<Rightarrow> (nat \<Rightarrow> u8) option"

text \<open>The event type numbers that \<open>ulib.h\<close> gives (\<open>must match kernel events.h\<close>).\<close>

definition EVENT_TIMER_SLEEP :: u32 where "EVENT_TIMER_SLEEP = 52"
definition EVENT_CONSOLE_WRITE :: u32 where "EVENT_CONSOLE_WRITE = 70"
definition EVENT_CONSOLE_WRITE_ATTR :: u32 where "EVENT_CONSOLE_WRITE_ATTR = 71"
definition EVENT_CONSOLE_READ_LINE :: u32 where "EVENT_CONSOLE_READ_LINE = 72"
definition EVENT_CONSOLE_READ_CHAR :: u32 where "EVENT_CONSOLE_READ_CHAR = 73"
definition EVENT_CONSOLE_CLEAR :: u32 where "EVENT_CONSOLE_CLEAR = 74"
definition EVENT_CONSOLE_SET_POS :: u32 where "EVENT_CONSOLE_SET_POS = 75"
definition EVENT_CONSOLE_GET_POS :: u32 where "EVENT_CONSOLE_GET_POS = 76"

text \<open>
  A C \<open>switch\<close> needs pairwise distinct case labels.  The deck's own comment places timer
  operations in 50--59 and device operations in 40--49.
\<close>

definition case_labels :: "hw_env \<Rightarrow> u32 list" where
  "case_labels k =
     [EVENT_TIMER_CREATE k, EVENT_TIMER_CANCEL k, EVENT_TIMER_SLEEP, EVENT_TIMER_GETTICKS k,
      EVENT_DEV_OPEN k, EVENT_DEV_IOCTL k, EVENT_DEV_READ k, EVENT_DEV_WRITE k,
      EVENT_CONSOLE_WRITE, EVENT_CONSOLE_WRITE_ATTR, EVENT_CONSOLE_READ_LINE,
      EVENT_CONSOLE_READ_CHAR, EVENT_CONSOLE_CLEAR, EVENT_CONSOLE_SET_POS,
      EVENT_CONSOLE_GET_POS]"

definition labels_distinct :: "hw_env \<Rightarrow> bool" where
  "labels_distinct k \<longleftrightarrow> distinct (case_labels k)"

definition labels_in_documented_ranges :: "hw_env \<Rightarrow> bool" where
  "labels_in_documented_ranges k \<longleftrightarrow>
     list_all (\<lambda>t. 50 \<le> t \<and> t \<le> 59)
       [EVENT_TIMER_CREATE k, EVENT_TIMER_CANCEL k, EVENT_TIMER_GETTICKS k] \<and>
     list_all (\<lambda>t. 40 \<le> t \<and> t \<le> 49)
       [EVENT_DEV_OPEN k, EVENT_DEV_IOCTL k, EVENT_DEV_READ k, EVENT_DEV_WRITE k]"

text \<open>
  Modelled from the spec: \<open>deck_complete\<close> (spec 4.2, \<open>complete\<close>) is not among the sources.
  It moves the entry to COMPLETED, fills a Response with status success, the result and
  its kind and the producing deck, sends it keyed by the entry's owning workflow, and
  releases the entry's pool slot.
\<close>

definition deck_complete :: "nat \<Rightarrow> u8 \<Rightarrow> result_data \<Rightarrow> result_type \<Rightarrow> hw_state \<Rightarrow> hw_state" where
  "deck_complete entry prefix result rtype s =
     s\<lparr>entries := (entries s)(entry := (entries s entry)
          \<lparr>state := EVENT_STATUS_COMPLETED, slot_free := True\<rparr>),
       responses := responses s @
         [\<lparr>resp_event_id = ev_id (event_copy (entries s entry)),
           resp_workflow_id = user_id (event_copy (entries s entry)),
           resp_status = STATUS_SUCCESS, resp_error = None,
           resp_result = result, resp_result_kind = rtype,
           resp_deck = prefix, resp_message = []\<rparr>],
       deck_log := deck_log s @ [Deck_complete entry prefix result rtype]\<rparr>"

text \<open>
  Modelled from the spec: \<open>deck_error_detailed\<close> (spec 4.2, \<open>fail\<close>, and section 7) is not
  among the sources.  It moves the entry to ERROR and delivers a Response in the same way,
  with a failure status, the error code and the short diagnostic string.
\<close>

definition deck_error_detailed :: "nat \<Rightarrow> u8 \<Rightarrow> error_code \<Rightarrow> string \<Rightarrow> hw_state \<Rightarrow> hw_state" where
  "deck_error_detailed entry prefix code msg s =
     s\<lparr>entries := (entries s)(entry := (entries s entry)
          \<lparr>state := EVENT_STATUS_ERROR, slot_free := True\<rparr>),
       responses := responses s @
         [\<lparr>resp_event_id = ev_id (event_copy (entries s entry)),
           resp_workflow_id = user_id (event_copy (entries s entry)),
           resp_status = STATUS_FAILURE, resp_error = Some code,
           resp_result = Value 0, resp_result_kind = RESULT_TYPE_NONE,
           resp_deck = prefix, resp_message = msg\<rparr>],
       deck_log := deck_log s @ [Deck_error entry prefix code msg]\<rparr>"

text \<open>Reading a little-endian scalar out of the payload: \<^verbatim>\<open>*(uint64_t*)(event->data + off)\<close>.\<close>

definition le_word :: "u8 list \<Rightarrow> 'a::len word" where
  "le_word bs = word_rcat (rev bs)"

definition read_u64 :: "(nat \<Rightarrow> u8) \<Rightarrow> nat \<Rightarrow> u64" where
  "read_u64 d off = le_word (map (\<lambda>i. d (off + i)) [0..<8])"

definition read_u32 :: "(nat \<Rightarrow> u8) \<Rightarrow> nat \<Rightarrow> u32" where
  "read_u32 d off = le_word (map (\<lambda>i. d (off + i)) [0..<4])"

section \<open>Kernel: timers (hardware_deck.c)\<close>

text \<open>
  \<open>timer_create\<close>: the first inactive slot is filled in; \<open>now\<close> is the value \<open>rdtsc()\<close>
  returns.  The result is the slot index (the \<open>Timer*\<close>), or \<open>None\<close> for the null pointer
  when all 64 slots are active.  All arithmetic is unsigned 64-bit.
\<close>

definition timer_create :: "hw_env \<Rightarrow> u64 \<Rightarrow> u64 \<Rightarrow> u64 \<Rightarrow> nat \<Rightarrow> hw_state \<Rightarrow> nat option \<times> hw_state" where
  "timer_create k now delay_ms interval_ms entry s =
     (case find (\<lambda>i. \<not> active (timers s i)) [0..<MAX_TIMERS] of
        None \<Rightarrow> (None, s)
      | Some i \<Rightarrow>
          (Some i,
           s\<lparr>timers := (timers s)(i := (timers s i)
                \<lparr>timer_id := atomic_increment_u64 k (next_timer_id s),
                 owner_workflow_id :=
                   (if entry \<noteq> 0 then user_id (event_copy (entries s entry)) else 0),
                 expiration := now + delay_ms * 2400000,
                 interval := interval_ms * 2400000,
                 suspended_entry := entry,
                 active := True\<rparr>),
             next_timer_id := next_timer_id s + 1\<rparr>))"

text \<open>\<open>timer_cancel\<close>: the first active slot with the identifier is deactivated.\<close>

definition timer_cancel :: "u64 \<Rightarrow> hw_state \<Rightarrow> int \<times> hw_state" where
  "timer_cancel tid s =
     (case find (\<lambda>i. active (timers s i) \<and> timer_id (timers s i) = tid) [0..<MAX_TIMERS] of
        None \<Rightarrow> (0, s)
      | Some i \<Rightarrow> (1, s\<lparr>timers := (timers s)(i := (timers s i)\<lparr>active := False\<rparr>)\<rparr>))"

text \<open>The body of the loop of \<open>timer_check_expired\<close> for slot \<open>i\<close>.\<close>

definition expire_slot :: "hw_env \<Rightarrow> u64 \<Rightarrow> nat \<Rightarrow> hw_state \<Rightarrow> hw_state" where
  "expire_slot k now i s =
     (if active (timers s i) \<and> now \<ge> expiration (timers s i) then
        let s1 =
              (if suspended_entry (timers s i) \<noteq> 0 then
                 let entry = suspended_entry (timers s i);
                     s' = deck_complete entry (DECK_PREFIX_HARDWARE k) (Value 0) RESULT_TYPE_NONE s;
                     s'' = s'\<lparr>entries := (entries s')(entry := (entries s' entry)
                              \<lparr>state := EVENT_STATUS_PROCESSING\<rparr>)\<rparr>
                 in s''\<lparr>timers := (timers s'')(i := (timers s'' i)\<lparr>suspended_entry := 0\<rparr>)\<rparr>
               else s)
        in if interval (timers s1 i) > 0
           then s1\<lparr>timers := (timers s1)(i := (timers s1 i)
                       \<lparr>expiration := now + interval (timers s1 i)\<rparr>)\<rparr>
           else s1\<lparr>timers := (timers s1)(i := (timers s1 i)\<lparr>active := False\<rparr>)\<rparr>
      else s)"

text \<open>\<open>timer_check_expired\<close>: one reading of the clock, then every slot in index order.\<close>

definition timer_check_expired :: "hw_env \<Rightarrow> u64 \<Rightarrow> hw_state \<Rightarrow> hw_state" where
  "timer_check_expired k now s = fold (expire_slot k now) [0..<MAX_TIMERS] s"

text \<open>\<open>hardware_deck_init\<close> clears the active flag of every slot.\<close>

definition hardware_deck_init :: "hw_state \<Rightarrow> hw_state" where
  "hardware_deck_init s = s\<lparr>timers := (\<lambda>i. if i < MAX_TIMERS then (timers s i)\<lparr>active := False\<rparr> else timers s i)\<rparr>"

section \<open>Kernel: the hardware deck's process callback (hardware_deck.c)\<close>

text \<open>
  How a call ends: it returns a value, it waits for a key that never comes
  (\<open>keyboard_getchar_blocking\<close> with nothing left to deliver), or it writes outside the
  block it allocated.
\<close>

datatype 'a outcome = Returned 'a | Blocked | Out_of_bounds

definition device_open :: "u8 list \<Rightarrow> u32" where
  "device_open name = 100"

definition hw_timer_create :: "hw_env \<Rightarrow> u64 \<Rightarrow> nat \<Rightarrow> hw_state \<Rightarrow> int \<times> hw_state" where
  "hw_timer_create k now entry s =
     (let d = data (event_copy (entries s entry));
          delay_ms = read_u64 d 0;
          interval_ms = read_u64 d 8
      in if delay_ms = 0 then
           (0, deck_error_detailed entry (DECK_PREFIX_HARDWARE k) ERROR_INVALID_PARAMETER
                 ''Timer create: delay is zero'' s)
         else if delay_ms > 3600000 then
           (0, deck_error_detailed entry (DECK_PREFIX_HARDWARE k) ERROR_INVALID_PARAMETER
                 ''Timer create: delay exceeds 1 hour'' s)
         else if interval_ms > 3600000 then
           (0, deck_error_detailed entry (DECK_PREFIX_HARDWARE k) ERROR_INVALID_PARAMETER
                 ''Timer create: interval exceeds 1 hour'' s)
         else
           (case timer_create k now delay_ms interval_ms 0 s of
              (Some i, s') \<Rightarrow>
                (1, deck_complete entry (DECK_PREFIX_HARDWARE k) (Timer_ref i) RESULT_TYPE_STATIC s')
            | (None, s') \<Rightarrow>
                (0, deck_error_detailed entry (DECK_PREFIX_HARDWARE k) ERROR_HW_TIMER_SLOTS_FULL
                      ''Timer create: no free timer slots'' s')))"

definition hw_timer_cancel :: "hw_env \<Rightarrow> nat \<Rightarrow> hw_state \<Rightarrow> int \<times> hw_state" where
  "hw_timer_cancel k entry s =
     (let tid = read_u64 (data (event_copy (entries s entry))) 0
      in if tid = 0 then
           (0, deck_error_detailed entry (DECK_PREFIX_HARDWARE k) ERROR_INVALID_PARAMETER
                 ''Timer cancel: timer ID is zero'' s)
         else
           (case timer_cancel tid s of
              (success, s') \<Rightarrow>
                if success \<noteq> 0 then
                  (1, deck_complete entry (DECK_PREFIX_HARDWARE k) (Value 0) RESULT_TYPE_NONE s')
                else
                  (0, deck_error_detailed entry (DECK_PREFIX_HARDWARE k) ERROR_HW_TIMER_NOT_FOUND
                        ''Timer cancel: timer not found'' s')))"

definition hw_timer_sleep :: "hw_env \<Rightarrow> u64 \<Rightarrow> nat \<Rightarrow> hw_state \<Rightarrow> int \<times> hw_state" where
  "hw_timer_sleep k now entry s =
     (let ms = read_u64 (data (event_copy (entries s entry))) 0
      in if ms = 0 then
           (0, deck_error_detailed entry (DECK_PREFIX_HARDWARE k) ERROR_INVALID_PARAMETER
                 ''Timer sleep: duration is zero'' s)
         else if ms > 3600000 then
           (0, deck_error_detailed entry (DECK_PREFIX_HARDWARE k) ERROR_INVALID_PARAMETER
                 ''Timer sleep: duration exceeds 1 hour'' s)
         else
           (case timer_create k now ms 0 entry s of
              (Some i, s') \<Rightarrow>
                (1, s'\<lparr>entries := (entries s')(entry := (entries s' entry)
                          \<lparr>state := EVENT_STATUS_SUSPENDED\<rparr>)\<rparr>)
            | (None, s') \<Rightarrow>
                (0, deck_error_detailed entry (DECK_PREFIX_HARDWARE k) ERROR_HW_TIMER_SLOTS_FULL
                      ''Timer sleep: no free timer slots'' s')))"

definition hw_timer_getticks :: "hw_env \<Rightarrow> u64 \<Rightarrow> nat \<Rightarrow> hw_state \<Rightarrow> int \<times> hw_state" where
  "hw_timer_getticks k now entry s =
     (1, deck_complete entry (DECK_PREFIX_HARDWARE k) (Value now) RESULT_TYPE_VALUE s)"

definition hw_dev_open :: "hw_env \<Rightarrow> nat \<Rightarrow> hw_state \<Rightarrow> int \<times> hw_state" where
  "hw_dev_open k entry s =
     (let d = data (event_copy (entries s entry))
      in if d 0 = 0 then
           (0, deck_error_detailed entry (DECK_PREFIX_HARDWARE k) ERROR_INVALID_PARAMETER
                 ''Device open: name is NULL or empty'' s)
         else
           let name = takeWhile (\<lambda>c. c \<noteq> 0) (map d [0..<64]);
               name_len = length name
           in if name_len \<ge> 64 then
                (0, deck_error_detailed entry (DECK_PREFIX_HARDWARE k) ERROR_INVALID_PARAMETER
                      ''Device open: name exceeds 64 characters'' s)
              else
                (1, deck_complete entry (DECK_PREFIX_HARDWARE k)
                      (Value (ucast (device_open name))) RESULT_TYPE_VALUE s))"

definition hw_dev_ioctl :: "hw_env \<Rightarrow> nat \<Rightarrow> hw_state \<Rightarrow> int \<times> hw_state" where
  "hw_dev_ioctl k entry s =
     (let device_id = read_u32 (data (event_copy (entries s entry))) 0
      in if sint device_id < 0 then
           (0, deck_error_detailed entry (DECK_PREFIX_HARDWARE k) ERROR_INVALID_PARAMETER
                 ''Device ioctl: invalid device ID'' s)
         else (1, deck_complete entry (DECK_PREFIX_HARDWARE k) (Value 0) RESULT_TYPE_NONE s))"

definition hw_dev_read :: "hw_env \<Rightarrow> nat \<Rightarrow> hw_state \<Rightarrow> int \<times> hw_state" where
  "hw_dev_read k entry s =
     (let d = data (event_copy (entries s entry));
          device_id = read_u32 d 0;
          size = read_u64 d 4
      in if sint device_id < 0 then
           (0, deck_error_detailed entry (DECK_PREFIX_HARDWARE k) ERROR_INVALID_PARAMETER
                 ''Device read: invalid device ID'' s)
         else if size = 0 then
           (0, deck_error_detailed entry (DECK_PREFIX_HARDWARE k) ERROR_INVALID_PARAMETER
                 ''Device read: size is zero'' s)
         else if size > 1024 * 1024 then
           (0, deck_error_detailed entry (DECK_PREFIX_HARDWARE k) ERROR_INVALID_PARAMETER
                 ''Device read: size exceeds 1MB limit'' s)
         else (1, deck_complete entry (DECK_PREFIX_HARDWARE k) (Value 0) RESULT_TYPE_NONE s))"

definition hw_dev_write :: "hw_env \<Rightarrow> nat \<Rightarrow> hw_state \<Rightarrow> int \<times> hw_state" where
  "hw_dev_write k entry s =
     (let d = data (event_copy (entries s entry));
          device_id = read_u32 d 0;
          size = read_u64 d 4
      in if sint device_id < 0 then
           (0, deck_error_detailed entry (DECK_PREFIX_HARDWARE k) ERROR_INVALID_PARAMETER
                 ''Device write: invalid device ID'' s)
         else if size = 0 then
           (0, deck_error_detailed entry (DECK_PREFIX_HARDWARE k) ERROR_INVALID_PARAMETER
                 ''Device write: size is zero'' s)
         else if size > of_nat (EVENT_DATA_SIZE - 12) then
           (0, deck_error_detailed entry (DECK_PREFIX_HARDWARE k) ERROR_INVALID_PARAMETER
                 ''Device write: data exceeds event payload limit'' s)
         else (1, deck_complete entry (DECK_PREFIX_HARDWARE k) (Value 0) RESULT_TYPE_NONE s))"

text \<open>
  The console write loop \<^verbatim>\<open>for (i = 0; i < size && str[i]; i++)\<close> visits the bytes before
  the first NUL among the first \<open>size\<close>; a line feed goes to \<open>vga_print_newline\<close>, any
  other byte to \<open>vga_print_char\<close>.
\<close>

definition console_emit :: "u8 \<Rightarrow> u8 \<Rightarrow> vga_call" where
  "console_emit attr c = (if c = 10 then Vga_print_newline else Vga_print_char c attr)"

definition console_print :: "u8 \<Rightarrow> (nat \<Rightarrow> u8) \<Rightarrow> nat \<Rightarrow> u32 \<Rightarrow> vga_call list" where
  "console_print attr d off n =
     map (console_emit attr) (takeWhile (\<lambda>c. c \<noteq> 0) (map (\<lambda>i. d (off + i)) [0..<unat n]))
     @ [Vga_update_cursor]"

definition hw_console_write :: "hw_env \<Rightarrow> nat \<Rightarrow> hw_state \<Rightarrow> int \<times> hw_state" where
  "hw_console_write k entry s =
     (let d = data (event_copy (entries s entry));
          size = read_u32 d 0
      in if size = 0 \<or> size > of_nat (EVENT_DATA_SIZE - 4) then
           (0, deck_error_detailed entry (DECK_PREFIX_HARDWARE k) ERROR_INVALID_PARAMETER
                 ''Console write: invalid size'' s)
         else
           (1, deck_complete entry (DECK_PREFIX_HARDWARE k) (Value (ucast size)) RESULT_TYPE_VALUE
                 (s\<lparr>vga := vga s @ console_print VGA_DEFAULT d 4 size\<rparr>)))"

definition hw_console_write_attr :: "hw_env \<Rightarrow> nat \<Rightarrow> hw_state \<Rightarrow> int \<times> hw_state" where
  "hw_console_write_attr k entry s =
     (let d = data (event_copy (entries s entry));
          attr = d 0;
          size = read_u32 d 1
      in if size = 0 \<or> size > of_nat (EVENT_DATA_SIZE - 5) then
           (0, deck_error_detailed entry (DECK_PREFIX_HARDWARE k) ERROR_INVALID_PARAMETER
                 ''Console write attr: invalid size'' s)
         else
           (1, deck_complete entry (DECK_PREFIX_HARDWARE k) (Value (ucast size)) RESULT_TYPE_VALUE
                 (s\<lparr>vga := vga s @ console_print attr d 5 size\<rparr>)))"

text \<open>A store into a block of memory; \<open>None\<close> when the index is outside the block.\<close>

definition buf_write :: "u8 list \<Rightarrow> nat \<Rightarrow> u8 \<Rightarrow> u8 list option" where
  "buf_write buf i c = (if i < length buf then Some (buf[i := c]) else None)"

text \<open>
  The line reading loop \<^verbatim>\<open>while (pos < max_size - 1)\<close>.  Each turn takes one key from
  \<open>keyboard_getchar_blocking\<close>; with no key left the call waits for ever.  \<open>pos\<close> and
  \<open>max_size\<close> are \<open>uint32_t\<close>.  The result is the final \<open>pos\<close>, the block, the VGA calls
  and the keys not yet consumed.
\<close>

fun read_line_loop ::
  "hw_env \<Rightarrow> u32 \<Rightarrow> u32 \<Rightarrow> u8 list \<Rightarrow> vga_call list \<Rightarrow> u8 list \<Rightarrow>
   (u32 \<times> u8 list \<times> vga_call list \<times> u8 list) outcome" where
  "read_line_loop k max_size pos line v [] =
     (if pos < max_size - 1 then Blocked else Returned (pos, line, v, []))"
| "read_line_loop k max_size pos line v (c # cs) =
     (if pos < max_size - 1 then
        if c = 10 \<or> c = 13 then Returned (pos, line, v @ [Vga_print_newline], cs)
        else if c = 8 then
          (if pos > 0 then
             let loc = vga_get_current_loc k v
             in if loc \<ge> 2 then
                  read_line_loop k max_size (pos - 1) line
                    (v @ [Vga_set_current_loc (loc - 2), Vga_print_char 0x20 VGA_DEFAULT,
                          Vga_set_current_loc (loc - 2)]) cs
                else read_line_loop k max_size (pos - 1) line v cs
           else read_line_loop k max_size pos line v cs)
        else if sint c \<ge> 0x20 \<and> sint c \<le> 0x7E then
          (case buf_write line (unat pos) c of
             None \<Rightarrow> Out_of_bounds
           | Some line' \<Rightarrow>
               read_line_loop k max_size (pos + 1) line' (v @ [Vga_print_char c VGA_INPUT]) cs)
        else read_line_loop k max_size pos line v cs
      else Returned (pos, line, v, c # cs))"

definition hw_console_read_line :: "hw_env \<Rightarrow> nat \<Rightarrow> hw_state \<Rightarrow> (int \<times> hw_state) outcome" where
  "hw_console_read_line k entry s =
     (let requested = read_u32 (data (event_copy (entries s entry))) 0;
          max_size = (if requested = 0 \<or> requested > 256 then 256 else requested)
      in case kmalloc k (unat max_size) of
           None \<Rightarrow>
             Returned (0, deck_error_detailed entry (DECK_PREFIX_HARDWARE k) ERROR_OUT_OF_MEMORY
                            ''Console read line: failed to allocate buffer'' s)
         | Some mem \<Rightarrow>
             (case read_line_loop k max_size 0 (map mem [0..<unat max_size]) (vga s) (keyboard s) of
                Blocked \<Rightarrow> Blocked
              | Out_of_bounds \<Rightarrow> Out_of_bounds
              | Returned (pos, line, v, keys) \<Rightarrow>
                  (case buf_write line (unat pos) 0 of
                     None \<Rightarrow> Out_of_bounds
                   | Some line' \<Rightarrow>
                       Returned (1, deck_complete entry (DECK_PREFIX_HARDWARE k) (Buffer line')
                                      RESULT_TYPE_KMALLOC (s\<lparr>vga := v, keyboard := keys\<rparr>)))))"

text \<open>\<open>keyboard_getchar\<close> does not wait: it returns 0 when there is no key.\<close>

definition hw_console_read_char :: "hw_env \<Rightarrow> nat \<Rightarrow> hw_state \<Rightarrow> int \<times> hw_state" where
  "hw_console_read_char k entry s =
     (case keyboard s of
        [] \<Rightarrow> (1, deck_complete entry (DECK_PREFIX_HARDWARE k) (Value 0) RESULT_TYPE_VALUE s)
      | c # cs \<Rightarrow>
          (1, deck_complete entry (DECK_PREFIX_HARDWARE k) (Value (scast c)) RESULT_TYPE_VALUE
                (s\<lparr>keyboard := cs\<rparr>)))"

definition hw_console_clear :: "hw_env \<Rightarrow> nat \<Rightarrow> hw_state \<Rightarrow> int \<times> hw_state" where
  "hw_console_clear k entry s =
     (1, deck_complete entry (DECK_PREFIX_HARDWARE k) (Value 0) RESULT_TYPE_NONE
           (s\<lparr>vga := vga s @ [Vga_clear_screen]\<rparr>))"

definition hw_console_set_pos :: "hw_env \<Rightarrow> nat \<Rightarrow> hw_state \<Rightarrow> int \<times> hw_state" where
  "hw_console_set_pos k entry s =
     (let d = data (event_copy (entries s entry));
          x = read_u32 d 0;
          y = read_u32 d 4
      in (1, deck_complete entry (DECK_PREFIX_HARDWARE k) (Value 0) RESULT_TYPE_NONE
               (s\<lparr>vga := vga s @ [Vga_set_cursor_position x y]\<rparr>)))"

definition hw_console_get_pos :: "hw_env \<Rightarrow> nat \<Rightarrow> hw_state \<Rightarrow> int \<times> hw_state" where
  "hw_console_get_pos k entry s =
     (let x = vga_get_cursor_position_x k (vga s);
          y = vga_get_cursor_position_y k (vga s);
          pos = push_bit 16 (scast y :: u64) OR scast x
      in (1, deck_complete entry (DECK_PREFIX_HARDWARE k) (Value pos) RESULT_TYPE_VALUE s))"

text \<open>
  \<open>hardware_deck_process\<close>: the null check, the range check on the event type, then the
  \<open>switch\<close>, its cases in the order of the source.  \<open>now\<close> is what \<open>rdtsc()\<close> returns
  during the call.
\<close>

definition hardware_deck_process :: "hw_env \<Rightarrow> u64 \<Rightarrow> nat \<Rightarrow> hw_state \<Rightarrow> (int \<times> hw_state) outcome" where
  "hardware_deck_process k now entry s =
     (if entry = 0 then Returned (0, s)
      else
        let ty = ev_type (event_copy (entries s entry))
        in if \<not> (ty \<ge> 40 \<and> ty < 80) then
             Returned (0, deck_error_detailed entry (DECK_PREFIX_HARDWARE k) ERROR_INVALID_PARAMETER
                            ''Event type out of hardware range (40-79)'' s)
           else if ty = EVENT_TIMER_CREATE k then Returned (hw_timer_create k now entry s)
           else if ty = EVENT_TIMER_CANCEL k then Returned (hw_timer_cancel k entry s)
           else if ty = EVENT_TIMER_SLEEP then Returned (hw_timer_sleep k now entry s)
           else if ty = EVENT_TIMER_GETTICKS k then Returned (hw_timer_getticks k now entry s)
           else if ty = EVENT_DEV_OPEN k then Returned (hw_dev_open k entry s)
           else if ty = EVENT_DEV_IOCTL k then Returned (hw_dev_ioctl k entry s)
           else if ty = EVENT_DEV_READ k then Returned (hw_dev_read k entry s)
           else if ty = EVENT_DEV_WRITE k then Returned (hw_dev_write k entry s)
           else if ty = EVENT_CONSOLE_WRITE then Returned (hw_console_write k entry s)
           else if ty = EVENT_CONSOLE_WRITE_ATTR then Returned (hw_console_write_attr k entry s)
           else if ty = EVENT_CONSOLE_READ_LINE then hw_console_read_line k entry s
           else if ty = EVENT_CONSOLE_READ_CHAR then Returned (hw_console_read_char k entry s)
           else if ty = EVENT_CONSOLE_CLEAR then Returned (hw_console_clear k entry s)
           else if ty = EVENT_CONSOLE_SET_POS then Returned (hw_console_set_pos k entry s)
           else if ty = EVENT_CONSOLE_GET_POS then Returned (hw_console_get_pos k entry s)
           else
             Returned (0, deck_error_detailed entry (DECK_PREFIX_HARDWARE k) ERROR_NOT_IMPLEMENTED
                            ''Hardware operation type not implemented'' s))"

text \<open>\<open>hardware_deck_run_once\<close> begins with one sweep of the timer table.\<close>

definition run_sweeps :: "hw_env \<Rightarrow> u64 list \<Rightarrow> hw_state \<Rightarrow> hw_state" where
  "run_sweeps k nows s = fold (timer_check_expired k) nows s"

section \<open>User library: event submission and console output (ulib.c)\<close>

text \<open>
  \<^verbatim>\<open>size_t strlen(const char* s) { size_t len = 0; while (s[len]) len++; return len; }\<close>
  A string argument is given by the bytes in front of its terminating NUL, so the loop
  stops at the first zero byte of the list, or at its end, where the terminator is.
\<close>

fun strlen :: "u8 list \<Rightarrow> nat" where
  "strlen [] = 0"
| "strlen (c # cs) = (if c = 0 then 0 else Suc (strlen cs))"

text \<open>
  \<^verbatim>\<open>void* memcpy(void* dest, const void* src, size_t n) { ... while (n--) *d++ = *s++; ... }\<close>
  The destination is an object of known extent and an offset into it; every store is
  checked against the extent, and the copy is \<open>None\<close> as soon as one store falls outside
  the object.  The source is the memory at and after the pointer \<open>src\<close>.
\<close>

fun memcpy :: "u8 list \<Rightarrow> nat \<Rightarrow> (nat \<Rightarrow> u8) \<Rightarrow> nat \<Rightarrow> u8 list option" where
  "memcpy dest d src 0 = Some dest"
| "memcpy dest d src (Suc n) =
     (case buf_write dest d (src 0) of
        None \<Rightarrow> None
      | Some dest' \<Rightarrow> memcpy dest' (Suc d) (\<lambda>i. src (Suc i)) n)"

text \<open>\<^verbatim>\<open>*(uint32_t*)(p + d) = v\<close>: the four bytes of \<open>v\<close>, least significant first.\<close>

definition store_u32 :: "u8 list \<Rightarrow> nat \<Rightarrow> u32 \<Rightarrow> u8 list option" where
  "store_u32 dest d v = memcpy dest d (bytes_at (le_bytes 4 v)) 4"

definition NOTIFY_SUBMIT :: u64 where
  "NOTIFY_SUBMIT = 0x01"

definition NOTIFY_WAIT :: u64 where
  "NOTIFY_WAIT = 0x02"

text \<open>
  What the library runs on: the one system call, \<open>kernel_notify(workflow_id, flags)\<close>,
  after which the kernel may have changed the shared rings in any way; and the bytes a
  local array holds before it is initialised.
\<close>

record ulib_env =
  kernel_notify :: "u64 \<Rightarrow> u64 \<Rightarrow> ulib_state \<Rightarrow> ulib_state"
  stack :: "nat \<Rightarrow> u8"

text \<open>
  \<open>execute_event\<close>, lines 89 to 107: the local \<open>ev\<close> is cleared by \<open>memset\<close>, its
  header fields are set, and the payload is copied into \<open>ev.data\<close>, an array of
  \<open>EVENT_DATA_SIZE\<close> bytes, after \<open>payload_size\<close> is cut down to \<open>EVENT_DATA_SIZE\<close>.  A
  \<open>NULL\<close> payload is \<open>None\<close>.
\<close>

definition build_event ::
  "u32 \<Rightarrow> u8 \<Rightarrow> (nat \<Rightarrow> u8) option \<Rightarrow> u64 \<Rightarrow> ulib_state \<Rightarrow> (Event \<times> ulib_state) outcome" where
  "build_event type deck_prefix payload payload_size u =
     (let ev_data = replicate EVENT_DATA_SIZE 0;
          ev_route = (\<lambda>i. 0)(0 := deck_prefix, 1 := 0);
          copied =
            (case payload of
               None \<Rightarrow> Some ev_data
             | Some src \<Rightarrow>
                 if payload_size > 0 then
                   let payload_size =
                         (if payload_size > of_nat EVENT_DATA_SIZE then of_nat EVENT_DATA_SIZE
                          else payload_size)
                   in memcpy ev_data 0 src (unat payload_size)
                 else Some ev_data)
      in case copied of
           None \<Rightarrow> Out_of_bounds
         | Some d \<Rightarrow>
             Returned (\<lparr>ev_id = next_event_id u, user_id = 1, ev_type = type, ev_pad = 0,
                        timestamp = 0, route = ev_route, data = bytes_at d\<rparr>,
                       u\<lparr>next_event_id := next_event_id u + 1\<rparr>))"

text \<open>
  \<open>execute_event\<close>: build the event, push it, notify the kernel twice (submit, wait), then
  pop one response into the caller's \<open>out_response\<close>, or into a local dummy when that
  pointer is \<open>NULL\<close>.  The result is the return value, the caller's response buffer and
  the globals.
\<close>

definition execute_event ::
  "ulib_env \<Rightarrow> u32 \<Rightarrow> u8 \<Rightarrow> (nat \<Rightarrow> u8) option \<Rightarrow> u64 \<Rightarrow> u8 list option \<Rightarrow> ulib_state \<Rightarrow>
   (int \<times> u8 list option \<times> ulib_state) outcome" where
  "execute_event k type deck_prefix payload payload_size out_response u =
     (case build_event type deck_prefix payload payload_size u of
        Blocked \<Rightarrow> Blocked
      | Out_of_bounds \<Rightarrow> Out_of_bounds
      | Returned (ev, u1) \<Rightarrow>
          let (pushed, er) = push_event ev (event_ring u1);
              u2 = u1\<lparr>event_ring := er\<rparr>
          in if pushed = 0 then Returned (0, out_response, u2)
             else
               let u3 = kernel_notify k 1 NOTIFY_SUBMIT u2;
                   u4 = kernel_notify k 1 NOTIFY_WAIT u3
               in case out_response of
                    Some resp \<Rightarrow>
                      let (r, resp', rr) = pop_response resp (response_ring u4)
                      in Returned (r, Some resp', u4\<lparr>response_ring := rr\<rparr>)
                  | None \<Rightarrow>
                      let (r, dummy, rr) =
                            pop_response (map (stack k) [0..<sizeof_Response]) (response_ring u4)
                      in Returned (1, None, u4\<lparr>response_ring := rr\<rparr>))"

text \<open>
  \<open>print\<close>, lines 140 to 147, for a string of length \<open>len\<close>: the length is cut down to
  \<open>EVENT_DATA_SIZE - 4\<close>, then the local array \<open>payload\<close> of \<open>EVENT_DATA_SIZE\<close> bytes gets
  the length as a 32-bit header and the string behind it.  The result is the array and
  the length.
\<close>

definition print_payload :: "ulib_env \<Rightarrow> u8 list \<Rightarrow> u64 \<Rightarrow> (u8 list \<times> u64) outcome" where
  "print_payload k str len =
     (let len = (if len > of_nat (EVENT_DATA_SIZE - 4) then of_nat (EVENT_DATA_SIZE - 4) else len);
          payload = map (stack k) [0..<EVENT_DATA_SIZE]
      in case store_u32 payload 0 (ucast len) of
           None \<Rightarrow> Out_of_bounds
         | Some payload \<Rightarrow>
             (case memcpy payload 4 (bytes_at str) (unat len) of
                None \<Rightarrow> Out_of_bounds
              | Some payload \<Rightarrow> Returned (payload, len)))"

text \<open>\<open>print\<close>: nothing for a \<open>NULL\<close> or empty string; otherwise one console-write event.\<close>

definition print :: "ulib_env \<Rightarrow> u8 list option \<Rightarrow> ulib_state \<Rightarrow> ulib_state outcome" where
  "print k str u =
     (case str of
        None \<Rightarrow> Returned u
      | Some cs \<Rightarrow>
          let len = (of_nat (strlen cs) :: u64) in
          if len = 0 then Returned u
          else
            (case print_payload k cs len of
               Blocked \<Rightarrow> Blocked
             | Out_of_bounds \<Rightarrow> Out_of_bounds
             | Returned (payload, len) \<Rightarrow>
                 (case execute_event k EVENT_CONSOLE_WRITE 3 (Some (bytes_at payload)) (4 + len) None u of
                    Blocked \<Rightarrow> Blocked
                  | Out_of_bounds \<Rightarrow> Out_of_bounds
                  | Returned (r, resp, u') \<Rightarrow> Returned u')))"

text \<open>
  \<open>print_attr\<close>, lines 157 to 165: the length is cut down to \<open>EVENT_DATA_SIZE - 5\<close>; the
  array gets the attribute, the 32-bit length at offset 1 and the string at offset 5.
\<close>

definition print_attr_payload :: "ulib_env \<Rightarrow> u8 list \<Rightarrow> u8 \<Rightarrow> u64 \<Rightarrow> (u8 list \<times> u64) outcome" where
  "print_attr_payload k str attr len =
     (let len = (if len > of_nat (EVENT_DATA_SIZE - 5) then of_nat (EVENT_DATA_SIZE - 5) else len);
          payload = map (stack k) [0..<EVENT_DATA_SIZE]
      in case buf_write payload 0 attr of
           None \<Rightarrow> Out_of_bounds
         | Some payload \<Rightarrow>
             (case store_u32 payload 1 (ucast len) of
                None \<Rightarrow> Out_of_bounds
              | Some payload \<Rightarrow>
                  (case memcpy payload 5 (bytes_at str) (unat len) of
                     None \<Rightarrow> Out_of_bounds
                   | Some payload \<Rightarrow> Returned (payload, len))))"

definition print_attr :: "ulib_env \<Rightarrow> u8 list option \<Rightarrow> u8 \<Rightarrow> ulib_state \<Rightarrow> ulib_state outcome" where
  "print_attr k str attr u =
     (case str of
        None \<Rightarrow> Returned u
      | Some cs \<Rightarrow>
          let len = (of_nat (strlen cs) :: u64) in
          if len = 0 then Returned u
          else
            (case print_attr_payload k cs attr len of
               Blocked \<Rightarrow> Blocked
             | Out_of_bounds \<Rightarrow> Out_of_bounds
             | Returned (payload, len) \<Rightarrow>
                 (case execute_event k EVENT_CONSOLE_WRITE_ATTR 3 (Some (bytes_at payload)) (5 + len) None u of
                    Blocked \<Rightarrow> Blocked
                  | Out_of_bounds \<Rightarrow> Out_of_bounds
                  | Returned (r, resp, u') \<Rightarrow> Returned u')))"

section \<open>Invariants and concrete inputs\<close>

text \<open>An empty ring whose slots are zeroed, and an event whose last payload byte is set.\<close>

definition ring_empty :: ring where
  "ring_empty = \<lparr>head = 0, tail = 0, slots = (\<lambda>_. replicate 264 0)\<rparr>"

definition ev_last_byte :: Event where
  "ev_last_byte = \<lparr>ev_id = 1, user_id = 1, ev_type = 70, ev_pad = 0, timestamp = 0,
     route = (\<lambda>_. 0)(0 := 3), data = (\<lambda>_. 0)(223 := 0xFF)\<rparr>"

text \<open>
  A kernel around the deck: event numbers for the cases whose numbers the sources leave
  open, taken from the ranges the deck documents (40 to 59 hardware and timer); a counter
  increment that returns the old value; an allocator that never fails.  Then an unused timer
  slot, an entry carrying an event of a given type and payload, and the state after
  \<open>hardware_deck_init\<close> with every entry pending.
\<close>

definition env0 :: hw_env where
  "env0 = \<lparr>EVENT_TIMER_CREATE = 50, EVENT_TIMER_CANCEL = 51, EVENT_TIMER_GETTICKS = 53,
            EVENT_DEV_OPEN = 40, EVENT_DEV_IOCTL = 41, EVENT_DEV_READ = 42, EVENT_DEV_WRITE = 43,
            DECK_PREFIX_HARDWARE = 3, atomic_increment_u64 = (\<lambda>c. c),
            vga_get_current_loc = (\<lambda>v. 0), vga_get_cursor_position_x = (\<lambda>v. 0),
            vga_get_cursor_position_y = (\<lambda>v. 0), kmalloc = (\<lambda>n. Some (\<lambda>i. 0xAA))\<rparr>"

definition idle_timer :: Timer where
  "idle_timer = \<lparr>timer_id = 0, owner_workflow_id = 0, expiration = 0, interval = 0,
                  timer_event_id = 0, suspended_entry = 0, active = False\<rparr>"

definition mk_entry :: "u32 \<Rightarrow> u8 list \<Rightarrow> event_status \<Rightarrow> RoutingEntry" where
  "mk_entry ty payload st =
     \<lparr>event_id = 7,
      event_copy = \<lparr>ev_id = 7, user_id = 1, ev_type = ty, ev_pad = 0, timestamp = 0,
                     route = bytes_at [3], data = bytes_at payload\<rparr>,
      state = st, slot_free = False\<rparr>"

definition hw_boot :: hw_state where
  "hw_boot = \<lparr>timers = (\<lambda>i. idle_timer), next_timer_id = 1,
               entries = (\<lambda>p. mk_entry 0 [] EVENT_STATUS_PENDING),
               responses = [], deck_log = [], vga = [], keyboard = []\<rparr>"

text \<open>
  A cancel of timer 5 while slot 3 holds that timer, linked to the suspended entry 32;
  and a cancel whose payload names timer 0.
\<close>

definition cancel_linked_state :: hw_state where
  "cancel_linked_state =
     hw_boot\<lparr>timers := (timers hw_boot)(3 :=
                \<lparr>timer_id = 5, owner_workflow_id = 1, expiration = 1000, interval = 0,
                 timer_event_id = 0, suspended_entry = 32, active = True\<rparr>),
              entries := (entries hw_boot)
                (16 := mk_entry 51 [5] EVENT_STATUS_PROCESSING,
                 32 := mk_entry 52 [50] EVENT_STATUS_SUSPENDED)\<rparr>"

definition cancel_zero_state :: hw_state where
  "cancel_zero_state =
     hw_boot\<lparr>entries := (entries hw_boot)(16 := mk_entry 51 [] EVENT_STATUS_PROCESSING)\<rparr>"

text \<open>The characters the line reader stores: \<open>0x20\<close> to \<open>0x7E\<close>.\<close>

definition printable :: "u8 \<Rightarrow> bool" where
  "printable c \<longleftrightarrow> 0x20 \<le> c \<and> c \<le> 0x7E"

text \<open>
  What one call of the process callback did to an entry, read off the states before and
  after: the calls into the deck interface that the call added, split into completions and
  failures of the entry, and whether the entry is left suspended with an active timer
  slot holding it.
\<close>

definition new_calls :: "hw_state \<Rightarrow> hw_state \<Rightarrow> deck_call list" where
  "new_calls s s' = drop (length (deck_log s)) (deck_log s')"

fun completes :: "nat \<Rightarrow> deck_call \<Rightarrow> bool" where
  "completes entry (Deck_complete e p r t) = (e = entry)"
| "completes entry (Deck_error e p c m) = False"

fun fails :: "nat \<Rightarrow> deck_call \<Rightarrow> bool" where
  "fails entry (Deck_complete e p r t) = False"
| "fails entry (Deck_error e p c m) = (e = entry)"

definition held_by_timer :: "nat \<Rightarrow> hw_state \<Rightarrow> bool" where
  "held_by_timer entry s =
     list_ex (\<lambda>i. active (timers s i) \<and> suspended_entry (timers s i) = entry) [0..<MAX_TIMERS]"

definition completions :: "nat \<Rightarrow> hw_state \<Rightarrow> hw_state \<Rightarrow> nat" where
  "completions entry s s' = length (filter (completes entry) (new_calls s s'))"

definition failures :: "nat \<Rightarrow> hw_state \<Rightarrow> hw_state \<Rightarrow> nat" where
  "failures entry s s' = length (filter (fails entry) (new_calls s s'))"

definition suspensions :: "nat \<Rightarrow> hw_state \<Rightarrow> hw_state \<Rightarrow> nat" where
  "suspensions entry s s' =
     (if state (entries s' entry) = EVENT_STATUS_SUSPENDED \<and> held_by_timer entry s'
      then 1 else 0)"

text \<open>
  The deck contract for one call: the log of deck interface calls only grew, every call
  added is a completion or a failure of this entry, and exactly one of completion,
  failure and suspension happened.
\<close>

definition deck_contract :: "nat \<Rightarrow> hw_state \<Rightarrow> hw_state \<Rightarrow> bool" where
  "deck_contract entry s s' \<longleftrightarrow>
     deck_log s' = deck_log s @ new_calls s s' \<and>
     length (new_calls s s') = completions entry s s' + failures entry s s' \<and>
     completions entry s s' + failures entry s s' + suspensions entry s s' = 1"

text \<open>
  One entry to process: a sleep of 50 ms; a console write of the two characters \<open>hi\<close>;
  a line read of at most 4 bytes with keys typed ahead.
\<close>

definition sleep_state :: hw_state where
  "sleep_state =
     hw_boot\<lparr>entries := (entries hw_boot)(16 := mk_entry 52 [50] EVENT_STATUS_PROCESSING)\<rparr>"

definition console_hi_state :: hw_state where
  "console_hi_state =
     hw_boot\<lparr>entries := (entries hw_boot)
                (16 := mk_entry 70 [2, 0, 0, 0, 0x68, 0x69] EVENT_STATUS_PROCESSING)\<rparr>"

definition read_line_state :: hw_state where
  "read_line_state =
     hw_boot\<lparr>entries := (entries hw_boot)(16 := mk_entry 72 [4] EVENT_STATUS_PROCESSING),
              keyboard := [0x61, 0x62, 8, 0x63, 0x64, 0x65, 10]\<rparr>"

text \<open>
  What the sweep does to one slot: a slot that is active and whose expiration has passed
  loses its link and is rescheduled (\<open>interval > 0\<close>) or deactivated; any other slot is
  left alone.
\<close>

definition fires :: "u64 \<Rightarrow> Timer \<Rightarrow> bool" where
  "fires now t \<longleftrightarrow> active t \<and> now \<ge> expiration t"

definition swept :: "u64 \<Rightarrow> Timer \<Rightarrow> Timer" where
  "swept now t =
     (if fires now t then
        (if interval t > 0
         then t\<lparr>expiration := now + interval t, suspended_entry := 0\<rparr>
         else t\<lparr>suspended_entry := 0, active := False\<rparr>)
      else t)"

text \<open>The slots, in index order, whose firing wakes an entry during a sweep at \<open>now\<close>.\<close>

definition waking_slots :: "u64 \<Rightarrow> hw_state \<Rightarrow> nat \<Rightarrow> nat list" where
  "waking_slots now s n =
     filter (\<lambda>i. fires now (timers s i) \<and> suspended_entry (timers s i) \<noteq> 0) [0..<n]"

text \<open>The sweep after its first \<open>n\<close> slots.\<close>

definition sweep_to :: "hw_env \<Rightarrow> u64 \<Rightarrow> nat \<Rightarrow> hw_state \<Rightarrow> hw_state" where
  "sweep_to k now n s = fold (expire_slot k now) [0..<n] s"

text \<open>One entry whose event type is 65, in the gap between the two ranges, or 200.\<close>

definition type_65_state :: hw_state where
  "type_65_state =
     hw_boot\<lparr>entries := (entries hw_boot)(16 := mk_entry 65 [] EVENT_STATUS_PROCESSING)\<rparr>"

definition type_200_state :: hw_state where
  "type_200_state =
     hw_boot\<lparr>entries := (entries hw_boot)(16 := mk_entry 200 [] EVENT_STATUS_PROCESSING)\<rparr>"

text \<open>
  A timer slot holds an entry when it is active and linked to it.  Between a timer sleep
  and its wake exactly one slot holds the entry, with the sleep's deadline and no interval,
  and the entry is SUSPENDED; afterwards no slot holds it.
\<close>

definition holds_entry :: "nat \<Rightarrow> Timer \<Rightarrow> bool" where
  "holds_entry entry t \<longleftrightarrow> active t \<and> suspended_entry t = entry"

definition asleep :: "nat \<Rightarrow> nat \<Rightarrow> u64 \<Rightarrow> hw_state \<Rightarrow> bool" where
  "asleep entry i deadline s \<longleftrightarrow>
     i < MAX_TIMERS \<and> holds_entry entry (timers s i) \<and>
     expiration (timers s i) = deadline \<and> interval (timers s i) = 0 \<and>
     list_all (\<lambda>j. j = i \<or> \<not> holds_entry entry (timers s j)) [0..<MAX_TIMERS] \<and>
     state (entries s entry) = EVENT_STATUS_SUSPENDED"

definition unheld :: "nat \<Rightarrow> hw_state \<Rightarrow> bool" where
  "unheld entry s \<longleftrightarrow> list_all (\<lambda>j. \<not> holds_entry entry (timers s j)) [0..<MAX_TIMERS]"

text \<open>A sleep of 50 ms on entry 16 and, on entry 32, a cancel of the timer that sleep will get.\<close>

definition sleep_cancel_state :: hw_state where
  "sleep_cancel_state =
     hw_boot\<lparr>entries := (entries hw_boot)
                (16 := mk_entry 52 [50] EVENT_STATUS_PROCESSING,
                 32 := mk_entry 51 [1] EVENT_STATUS_PROCESSING)\<rparr>"

text \<open>
  The state after a sleep of 50 ms issued at the last clock reading before the counter
  wraps, after the same sleep issued at clock 1000, and after that timer is cancelled.
\<close>

definition slept_at_wrap :: hw_state where
  "slept_at_wrap = snd (hw_timer_sleep env0 (- 1) 16 sleep_state)"

definition slept :: hw_state where
  "slept = snd (hw_timer_sleep env0 1000 16 sleep_cancel_state)"

definition slept_cancelled :: hw_state where
  "slept_cancelled = snd (hw_timer_cancel env0 32 slept)"

text \<open>
  \<open>hardware_deck_run_once\<close> sweeps the timer table and then lets the deck's run loop hand
  one queued entry to the process callback.  A run of the deck is a sequence of such
  steps: a sweep at a clock reading, or a call of the callback on an entry, which reads
  the clock at most once.  A call that does not return ends the run.
\<close>

datatype hw_step = Sweep u64 | Call u64 nat

fun run_steps :: "hw_env \<Rightarrow> hw_step list \<Rightarrow> hw_state \<Rightarrow> hw_state option" where
  "run_steps k [] s = Some s"
| "run_steps k (Sweep now # xs) s = run_steps k xs (timer_check_expired k now s)"
| "run_steps k (Call now entry # xs) s =
     (case hardware_deck_process k now entry s of
        Returned (r, s') \<Rightarrow> run_steps k xs s'
      | Blocked \<Rightarrow> None
      | Out_of_bounds \<Rightarrow> None)"

text \<open>The event held by entry \<open>q\<close> asks to cancel the timer with identifier \<open>tid\<close>.\<close>

definition cancels :: "hw_env \<Rightarrow> nat \<Rightarrow> hw_state \<Rightarrow> u64 \<Rightarrow> bool" where
  "cancels k q s tid \<longleftrightarrow>
     ev_type (event_copy (entries s q)) = EVENT_TIMER_CANCEL k \<and>
     read_u64 (data (event_copy (entries s q))) 0 = tid"

text \<open>
  The steps allowed while an entry sleeps on the timer \<open>tid\<close> with the deadline \<open>dl\<close>: a
  sweep that reads the clock before the deadline, or a call on another entry whose event
  does not cancel that timer.  Afterwards: any sweep, and any call on another entry.
\<close>

fun early_step :: "hw_env \<Rightarrow> nat \<Rightarrow> hw_state \<Rightarrow> u64 \<Rightarrow> nat \<Rightarrow> hw_step \<Rightarrow> bool" where
  "early_step k entry s tid dl (Sweep now) = (unat now < dl)"
| "early_step k entry s tid dl (Call now q) = (q \<noteq> entry \<and> \<not> cancels k q s tid)"

fun other_step :: "nat \<Rightarrow> hw_step \<Rightarrow> bool" where
  "other_step entry (Sweep now) = True"
| "other_step entry (Call now q) = (q \<noteq> entry)"

text \<open>
  What a call on entry \<open>q\<close> leaves alone: every other entry, every entry's copy of its
  event, and the set of entries that timer slots hold, but for \<open>q\<close> itself.
\<close>

definition frame :: "nat \<Rightarrow> hw_state \<Rightarrow> hw_state \<Rightarrow> bool" where
  "frame q s s' \<longleftrightarrow>
     (\<forall>p. p \<noteq> q \<longrightarrow> entries s' p = entries s p) \<and>
     (\<forall>p. event_copy (entries s' p) = event_copy (entries s p)) \<and>
     (\<forall>j e. e \<noteq> 0 \<longrightarrow> e \<noteq> q \<longrightarrow> holds_entry e (timers s' j) \<longrightarrow> holds_entry e (timers s j))"

text \<open>Every entry still carries the event it carried in \<open>s0\<close>.\<close>

definition same_events :: "hw_state \<Rightarrow> hw_state \<Rightarrow> bool" where
  "same_events s0 s \<longleftrightarrow> (\<forall>p. event_copy (entries s p) = event_copy (entries s0 p))"

text \<open>
  A step that cannot wait for the keyboard: a sweep, or a call on an entry whose event is
  not a console read-line.
\<close>

fun never_waits :: "hw_state \<Rightarrow> hw_step \<Rightarrow> bool" where
  "never_waits s0 (Sweep now) = True"
| "never_waits s0 (Call now q) = (ev_type (event_copy (entries s0 q)) \<noteq> EVENT_CONSOLE_READ_LINE)"

text \<open>
  A kernel that leaves the rings alone, a stack filled with \<open>0xCC\<close>, and the library's
  globals at program start.
\<close>

definition ulib_env0 :: ulib_env where
  "ulib_env0 = \<lparr>kernel_notify = (\<lambda>w f u. u), stack = (\<lambda>i. 0xCC)\<rparr>"

definition ulib_boot :: ulib_state where
  "ulib_boot = \<lparr>event_ring = ring_empty, response_ring = ring_empty, next_event_id = 1\<rparr>"



section \<open>Ring transport: properties\<close>

lemma length_le_bytes: "length (le_bytes n w) = n"
  by (simp add: le_bytes_def)

lemma length_event_bytes: "length (event_bytes e) = 264"
  by (simp add: event_bytes_def length_le_bytes MAX_ROUTING_STEPS_def EVENT_DATA_SIZE_def)

lemma copy_qwords_take_drop:
  "8 * n \<le> length src \<Longrightarrow> 8 * n \<le> length dst \<Longrightarrow>
   copy_qwords n src dst = take (8 * n) src @ drop (8 * n) dst"
proof (induction n)
  case 0
  show ?case by (simp add: copy_qwords_def)
next
  case (Suc n)
  have prev: "copy_qwords n src dst = take (8 * n) src @ drop (8 * n) dst"
    using Suc by simp
  have step: "copy_qwords (Suc n) src dst = copy_qword src n (copy_qwords n src dst)"
    by (simp add: copy_qwords_def)
  have "copy_qword src n (take (8 * n) src @ drop (8 * n) dst) =
        (take (8 * n) src @ take 8 (drop (8 * n) src)) @ drop (8 * n + 8) dst"
    using Suc.prems by (simp add: copy_qword_def add.commute)
  moreover have "take (8 * n) src @ take 8 (drop (8 * n) src) = take (8 * n + 8) src"
    by (simp add: take_add)
  ultimately show ?case
    by (simp add: step prev add.commute)
qed




lemma push_event_slot:
  assumes "tail r - head r < 256" and "length (slots r (unat (tail r AND 0xFF))) = 264"
  shows "push_event ev r = (1, r\<lparr>slots := (slots r)(unat (tail r AND 0xFF) :=
            take 256 (event_bytes ev) @ drop 256 (slots r (unat (tail r AND 0xFF)))),
            tail := tail r + 1\<rparr>)"
  using assms
  by (simp add: push_event_def Let_def copy_qwords_take_drop length_event_bytes not_le)






text \<open>
  Claim C3.  The Event record is meant to be 256 bytes and \<open>push_event\<close> is meant to
  copy all of it.  On the code the packed record is 264 bytes (a 40-byte header and the
  224-byte payload), and a successful push copies 32 quadwords: the first 256 bytes of
  the record reach the slot, and the slot's last 8 bytes (payload bytes 216..223) keep
  what they held before.
\<close>

theorem push_event_copies_256_of_264:
  assumes "tail r - head r < 256" and "length (slots r (unat (tail r AND 0xFF))) = 264"
  shows "length (event_bytes ev) = 264 \<and> data_offset + EVENT_DATA_SIZE = 264 \<and>
         fst (push_event ev r) = 1 \<and>
         slots (snd (push_event ev r)) (unat (tail r AND 0xFF)) =
           take 256 (event_bytes ev) @ drop 256 (slots r (unat (tail r AND 0xFF)))"
  using push_event_slot[OF assms, of ev]
  by (simp add: length_event_bytes data_offset_def EVENT_DATA_SIZE_def MAX_ROUTING_STEPS_def)

theorem push_event_copies_256_of_264_witness:
  "tail ring_empty - head ring_empty < 256 \<and>
   length (slots ring_empty (unat (tail ring_empty AND 0xFF))) = 264 \<and>
   fst (push_event ev_last_byte ring_empty) = 1 \<and>
   event_bytes ev_last_byte ! 263 = 0xFF \<and>
   slots (snd (push_event ev_last_byte ring_empty)) 0 ! 263 = 0 \<and>
   slots (snd (push_event ev_last_byte ring_empty)) 0 \<noteq> event_bytes ev_last_byte"
proof -
  have h: "tail ring_empty - head ring_empty < 256"
    "length (slots ring_empty (unat (tail ring_empty AND 0xFF))) = 264"
    by (simp_all add: ring_empty_def)
  have e: "event_bytes ev_last_byte ! 263 = 0xFF"
    by (simp add: event_bytes_def ev_last_byte_def length_le_bytes nth_append
        MAX_ROUTING_STEPS_def EVENT_DATA_SIZE_def)
  have s: "slots (snd (push_event ev_last_byte ring_empty)) 0 ! 263 = 0"
    using push_event_copies_256_of_264[OF h, of ev_last_byte]
    by (simp add: ring_empty_def nth_append)
  have "fst (push_event ev_last_byte ring_empty) = 1"
    using push_event_copies_256_of_264[OF h, of ev_last_byte] by simp
  moreover have "slots (snd (push_event ev_last_byte ring_empty)) 0 \<noteq> event_bytes ev_last_byte"
    using e s by auto
  ultimately show ?thesis using h e s by simp
qed



section \<open>Timer cancellation\<close>

lemma find_upt_None: "find P [0..<n] = None \<longleftrightarrow> (\<forall>i<n. \<not> P i)"
  by (simp add: find_None_iff)

lemma find_upt_Some: "find P [0..<n] = Some i \<longleftrightarrow> i < n \<and> P i \<and> (\<forall>j<i. \<not> P j)"
proof
  assume "find P [0..<n] = Some i"
  then obtain m where m: "m < length [0..<n]" "P ([0..<n] ! m)" "i = [0..<n] ! m" "\<forall>j<m. \<not> P ([0..<n] ! j)"
    unfolding find_Some_iff by blast
  then show "i < n \<and> P i \<and> (\<forall>j<i. \<not> P j)" by auto
next
  assume a: "i < n \<and> P i \<and> (\<forall>j<i. \<not> P j)"
  show "find P [0..<n] = Some i"
    unfolding find_Some_iff
    by (rule exI[of _ i]) (use a in auto)
qed

lemma timer_cancel_none:
  "\<forall>i<MAX_TIMERS. \<not> (active (timers s i) \<and> timer_id (timers s i) = tid) \<Longrightarrow> timer_cancel tid s = (0, s)"
  by (simp add: timer_cancel_def find_upt_None[THEN iffD2])

lemma timer_cancel_first:
  "i < MAX_TIMERS \<Longrightarrow> active (timers s i) \<Longrightarrow> timer_id (timers s i) = tid \<Longrightarrow>
   \<forall>j<i. \<not> (active (timers s j) \<and> timer_id (timers s j) = tid) \<Longrightarrow>
   timer_cancel tid s = (1, s\<lparr>timers := (timers s)(i := (timers s i)\<lparr>active := False\<rparr>)\<rparr>)"
  using find_upt_Some[of "\<lambda>i. active (timers s i) \<and> timer_id (timers s i) = tid" MAX_TIMERS i]
  by (simp add: timer_cancel_def)

lemmas event_numbers =
  EVENT_TIMER_SLEEP_def EVENT_CONSOLE_WRITE_def EVENT_CONSOLE_WRITE_ATTR_def
  EVENT_CONSOLE_READ_LINE_def EVENT_CONSOLE_READ_CHAR_def EVENT_CONSOLE_CLEAR_def
  EVENT_CONSOLE_SET_POS_def EVENT_CONSOLE_GET_POS_def

lemma process_timer_cancel:
  assumes "entry \<noteq> 0" "ev_type (event_copy (entries s entry)) = EVENT_TIMER_CANCEL k"
    "40 \<le> EVENT_TIMER_CANCEL k" "EVENT_TIMER_CANCEL k < 80" "labels_distinct k"
  shows "hardware_deck_process k now entry s = Returned (hw_timer_cancel k entry s)"
proof -
  have "EVENT_TIMER_CANCEL k \<noteq> EVENT_TIMER_CREATE k"
    using assms(5) by (auto simp: labels_distinct_def case_labels_def)
  then show ?thesis using assms by (simp add: hardware_deck_process_def Let_def)
qed

lemma deck_error_detailed_fields:
  "timers (deck_error_detailed e p c m s) = timers s"
  "entries (deck_error_detailed e p c m s) q = (if q = e then (entries s e)\<lparr>state := EVENT_STATUS_ERROR, slot_free := True\<rparr> else entries s q)"
  "deck_log (deck_error_detailed e p c m s) = deck_log s @ [Deck_error e p c m]"
  "vga (deck_error_detailed e p c m s) = vga s"
  "keyboard (deck_error_detailed e p c m s) = keyboard s"
  "next_timer_id (deck_error_detailed e p c m s) = next_timer_id s"
  by (simp_all add: deck_error_detailed_def)

lemma deck_complete_fields:
  "timers (deck_complete e p r t s) = timers s"
  "entries (deck_complete e p r t s) q = (if q = e then (entries s e)\<lparr>state := EVENT_STATUS_COMPLETED, slot_free := True\<rparr> else entries s q)"
  "deck_log (deck_complete e p r t s) = deck_log s @ [Deck_complete e p r t]"
  "vga (deck_complete e p r t s) = vga s"
  "keyboard (deck_complete e p r t s) = keyboard s"
  "next_timer_id (deck_complete e p r t s) = next_timer_id s"
  by (simp_all add: deck_complete_def)

text \<open>
  Claim C7 (amended).  Cancelling by identifier \<open>tid\<close>, read from the first 8 payload bytes
  of a timer-cancel event.  If no active slot carries \<open>tid\<close>, \<open>timer_cancel\<close> returns 0 with
  the state untouched and, for \<open>tid\<close> other than 0, the event fails with the not-found error.
  If slot \<open>i\<close> is the first active slot carrying \<open>tid\<close>, exactly that slot is deactivated
  and, for \<open>tid\<close> other than 0, the event completes; no other entry is touched, so an entry
  linked to the timer stays as it was, and it receives no call.  An identifier of 0 is
  rejected with the invalid-parameter error before the table is searched.  No error
  alters a slot.
\<close>

theorem timer_cancel_by_identifier:
  assumes "entry \<noteq> 0"
    and "ev_type (event_copy (entries s entry)) = EVENT_TIMER_CANCEL k"
    and "40 \<le> EVENT_TIMER_CANCEL k" and "EVENT_TIMER_CANCEL k < 80" and "labels_distinct k"
    and "tid = read_u64 (data (event_copy (entries s entry))) 0"
  shows
    "((\<forall>i<MAX_TIMERS. \<not> (active (timers s i) \<and> timer_id (timers s i) = tid)) \<longrightarrow>
        timer_cancel tid s = (0, s) \<and>
        (tid \<noteq> 0 \<longrightarrow>
           hardware_deck_process k now entry s =
             Returned (0, deck_error_detailed entry (DECK_PREFIX_HARDWARE k) ERROR_HW_TIMER_NOT_FOUND
                            ''Timer cancel: timer not found'' s))) \<and>
     (i < MAX_TIMERS \<and> active (timers s i) \<and> timer_id (timers s i) = tid \<and>
      (\<forall>j<i. \<not> (active (timers s j) \<and> timer_id (timers s j) = tid)) \<longrightarrow>
        timer_cancel tid s = (1, s\<lparr>timers := (timers s)(i := (timers s i)\<lparr>active := False\<rparr>)\<rparr>) \<and>
        (tid \<noteq> 0 \<longrightarrow>
           (\<exists>s'. hardware_deck_process k now entry s = Returned (1, s') \<and>
                 timers s' = (timers s)(i := (timers s i)\<lparr>active := False\<rparr>) \<and>
                 deck_log s' = deck_log s @
                   [Deck_complete entry (DECK_PREFIX_HARDWARE k) (Value 0) RESULT_TYPE_NONE] \<and>
                 (\<forall>q. q \<noteq> entry \<longrightarrow> entries s' q = entries s q)))) \<and>
     (tid = 0 \<longrightarrow>
        hardware_deck_process k now entry s =
          Returned (0, deck_error_detailed entry (DECK_PREFIX_HARDWARE k) ERROR_INVALID_PARAMETER
                         ''Timer cancel: timer ID is zero'' s)) \<and>
     timers (deck_error_detailed entry (DECK_PREFIX_HARDWARE k) c m s) = timers s"
proof -
  note p = process_timer_cancel[OF assms(1-5), of now]
  have a: "(\<forall>i<MAX_TIMERS. \<not> (active (timers s i) \<and> timer_id (timers s i) = tid)) \<longrightarrow>
        timer_cancel tid s = (0, s) \<and>
        (tid \<noteq> 0 \<longrightarrow>
           hardware_deck_process k now entry s =
             Returned (0, deck_error_detailed entry (DECK_PREFIX_HARDWARE k) ERROR_HW_TIMER_NOT_FOUND
                            ''Timer cancel: timer not found'' s))"
    using assms(6) by (auto simp: p hw_timer_cancel_def Let_def timer_cancel_none)
  have b: "i < MAX_TIMERS \<and> active (timers s i) \<and> timer_id (timers s i) = tid \<and>
      (\<forall>j<i. \<not> (active (timers s j) \<and> timer_id (timers s j) = tid)) \<longrightarrow>
        timer_cancel tid s = (1, s\<lparr>timers := (timers s)(i := (timers s i)\<lparr>active := False\<rparr>)\<rparr>) \<and>
        (tid \<noteq> 0 \<longrightarrow>
           (\<exists>s'. hardware_deck_process k now entry s = Returned (1, s') \<and>
                 timers s' = (timers s)(i := (timers s i)\<lparr>active := False\<rparr>) \<and>
                 deck_log s' = deck_log s @
                   [Deck_complete entry (DECK_PREFIX_HARDWARE k) (Value 0) RESULT_TYPE_NONE] \<and>
                 (\<forall>q. q \<noteq> entry \<longrightarrow> entries s' q = entries s q)))"
  proof (intro impI, elim conjE)
    assume h: "i < MAX_TIMERS" "active (timers s i)" "timer_id (timers s i) = tid"
      "\<forall>j<i. \<not> (active (timers s j) \<and> timer_id (timers s j) = tid)"
    note c = timer_cancel_first[OF h]
    show "timer_cancel tid s = (1, s\<lparr>timers := (timers s)(i := (timers s i)\<lparr>active := False\<rparr>)\<rparr>) \<and>
        (tid \<noteq> 0 \<longrightarrow>
           (\<exists>s'. hardware_deck_process k now entry s = Returned (1, s') \<and>
                 timers s' = (timers s)(i := (timers s i)\<lparr>active := False\<rparr>) \<and>
                 deck_log s' = deck_log s @
                   [Deck_complete entry (DECK_PREFIX_HARDWARE k) (Value 0) RESULT_TYPE_NONE] \<and>
                 (\<forall>q. q \<noteq> entry \<longrightarrow> entries s' q = entries s q)))"
      using assms(6) c by (simp add: p hw_timer_cancel_def Let_def deck_complete_fields)
  qed
  have c: "tid = 0 \<longrightarrow>
        hardware_deck_process k now entry s =
          Returned (0, deck_error_detailed entry (DECK_PREFIX_HARDWARE k) ERROR_INVALID_PARAMETER
                         ''Timer cancel: timer ID is zero'' s)"
    using assms(6) by (simp add: p hw_timer_cancel_def Let_def)
  show ?thesis using a b c by (simp add: deck_error_detailed_fields)
qed

lemma env0_simps:
  "EVENT_TIMER_CREATE env0 = 50" "EVENT_TIMER_CANCEL env0 = 51" "EVENT_TIMER_GETTICKS env0 = 53"
  "EVENT_DEV_OPEN env0 = 40" "EVENT_DEV_IOCTL env0 = 41" "EVENT_DEV_READ env0 = 42"
  "EVENT_DEV_WRITE env0 = 43" "DECK_PREFIX_HARDWARE env0 = 3"
  "atomic_increment_u64 env0 c = c" "vga_get_current_loc env0 v = 0"
  "kmalloc env0 n = Some (\<lambda>i. 0xAA)"
  by (simp_all add: env0_def)

lemma env0_labels_distinct: "labels_distinct env0"
  by (simp add: labels_distinct_def case_labels_def env0_simps event_numbers)

lemma read_u64_bytes_at:
  "read_u64 (bytes_at [b]) 0 = ucast b" "read_u64 (bytes_at []) 0 = 0"
  by (simp_all add: read_u64_def le_word_def bytes_at_def upt_rec word_rcat_def)

theorem timer_cancel_by_identifier_witness:
  "\<exists>s'. hardware_deck_process env0 0 16 cancel_linked_state = Returned (1, s') \<and>
        active (timers cancel_linked_state 3) \<and> \<not> active (timers s' 3) \<and>
        suspended_entry (timers s' 3) = 32 \<and>
        state (entries cancel_linked_state 32) = EVENT_STATUS_SUSPENDED \<and>
        state (entries s' 32) = EVENT_STATUS_SUSPENDED \<and>
        timers s' 4 = timers cancel_linked_state 4"
proof -
  have e1: "entries cancel_linked_state 16 = mk_entry 51 [5] EVENT_STATUS_PROCESSING"
    and e2: "entries cancel_linked_state 32 = mk_entry 52 [50] EVENT_STATUS_SUSPENDED"
    and t: "timers cancel_linked_state = (\<lambda>i. idle_timer)(3 :=
                \<lparr>timer_id = 5, owner_workflow_id = 1, expiration = 1000, interval = 0,
                 timer_event_id = 0, suspended_entry = 32, active = True\<rparr>)"
    by (simp_all add: cancel_linked_state_def hw_boot_def)
  have h: "(16::nat) \<noteq> 0" "ev_type (event_copy (entries cancel_linked_state 16)) = EVENT_TIMER_CANCEL env0"
    "40 \<le> EVENT_TIMER_CANCEL env0" "EVENT_TIMER_CANCEL env0 < 80"
    "labels_distinct env0" "5 = read_u64 (data (event_copy (entries cancel_linked_state 16))) 0"
    by (simp_all add: e1 mk_entry_def env0_simps env0_labels_distinct read_u64_bytes_at)
  have prem: "3 < MAX_TIMERS \<and> active (timers cancel_linked_state 3) \<and>
      timer_id (timers cancel_linked_state 3) = 5 \<and>
      (\<forall>j<3. \<not> (active (timers cancel_linked_state j) \<and> timer_id (timers cancel_linked_state j) = 5))"
    by (simp add: t MAX_TIMERS_def idle_timer_def)
  note T = timer_cancel_by_identifier[OF h, where i=3 and now=0]
  from T[THEN conjunct2, THEN conjunct1, rule_format, OF prem]
  have "\<exists>s'. hardware_deck_process env0 0 16 cancel_linked_state = Returned (1, s') \<and>
     timers s' = (timers cancel_linked_state)(3 := (timers cancel_linked_state 3)\<lparr>active := False\<rparr>) \<and>
     deck_log s' = deck_log cancel_linked_state @
        [Deck_complete 16 (DECK_PREFIX_HARDWARE env0) (Value 0) RESULT_TYPE_NONE] \<and>
     (\<forall>q. q \<noteq> 16 \<longrightarrow> entries s' q = entries cancel_linked_state q)"
    by simp
  then obtain s' where s': "hardware_deck_process env0 0 16 cancel_linked_state = Returned (1, s')"
    "timers s' = (timers cancel_linked_state)(3 := (timers cancel_linked_state 3)\<lparr>active := False\<rparr>)"
    "\<forall>q. q \<noteq> 16 \<longrightarrow> entries s' q = entries cancel_linked_state q"
    by blast
  have "entries s' 32 = entries cancel_linked_state 32" using s'(3) by simp
  then show ?thesis using s'(1,2)
    by (simp add: e2 t mk_entry_def)
qed

text \<open>
  A cancel whose payload names timer 0, on a table with no active slot: the callback
  fails the entry with the invalid-parameter code, which is not the not-found code.
\<close>

theorem timer_cancel_zero_id_invalid_parameter:
  "list_all (\<lambda>i. \<not> active (timers cancel_zero_state i)) [0..<MAX_TIMERS] \<and>
   hardware_deck_process env0 0 16 cancel_zero_state =
     Returned (0, deck_error_detailed 16 3 ERROR_INVALID_PARAMETER
                    ''Timer cancel: timer ID is zero'' cancel_zero_state) \<and>
   map resp_error (responses (deck_error_detailed 16 3 ERROR_INVALID_PARAMETER
                    ''Timer cancel: timer ID is zero'' cancel_zero_state)) =
     [Some ERROR_INVALID_PARAMETER] \<and>
   ERROR_INVALID_PARAMETER \<noteq> ERROR_HW_TIMER_NOT_FOUND"
proof -
  have e1: "entries cancel_zero_state 16 = mk_entry 51 [] EVENT_STATUS_PROCESSING"
    by (simp add: cancel_zero_state_def)
  have "hardware_deck_process env0 0 16 cancel_zero_state = Returned (hw_timer_cancel env0 16 cancel_zero_state)"
    by (rule process_timer_cancel)
       (simp_all add: env0_labels_distinct e1 mk_entry_def env0_simps)
  moreover have "hw_timer_cancel env0 16 cancel_zero_state =
     (0, deck_error_detailed 16 3 ERROR_INVALID_PARAMETER
                    ''Timer cancel: timer ID is zero'' cancel_zero_state)"
    by (simp add: hw_timer_cancel_def e1 mk_entry_def read_u64_bytes_at env0_simps)
  ultimately show ?thesis
    by (simp add: list_all_iff cancel_zero_state_def hw_boot_def idle_timer_def deck_error_detailed_def)
qed

section \<open>The process callback: contract, console write, console line input\<close>

lemma signed_byte_value:
  fixes x :: int
  assumes "0 \<le> x" "x < 256" "32 \<le> (x + 128) mod 256 - 128"
  shows "(x + 128) mod 256 - 128 = x"
proof (cases "x < 128")
  case True
  then have "(x + 128) mod 256 = x + 128" using assms(1) by (intro mod_pos_pos_trivial) auto
  then show ?thesis by simp
next
  case False
  have "(x + 128) mod 256 = (x - 128 + 256) mod 256" by (simp add: algebra_simps)
  also have "\<dots> = (x - 128) mod 256" by (rule mod_add_self2)
  also have "\<dots> = x - 128" using False assms(2) by (intro mod_pos_pos_trivial) auto
  finally show ?thesis using assms by linarith
qed

lemma sint_printable: "sint (c :: u8) \<ge> 0x20 \<Longrightarrow> sint c \<le> 0x7E \<Longrightarrow> printable c"
proof -
  assume a: "sint c \<ge> 0x20" "sint c \<le> 0x7E"
  define x where "x = uint c"
  have s: "sint c = (x + 128) mod 256 - 128"
    by (simp add: x_def sint_uint signed_take_bit_eq_take_bit_shift take_bit_eq_mod)
  have b: "0 \<le> x" "x < 256"
    using unsigned_less[of c, where 'a=int] by (simp_all add: x_def)
  have "32 \<le> (x + 128) mod 256 - 128" using a(1) s by linarith
  from signed_byte_value[OF b this] have "sint c = x" using s by linarith
  then have "32 \<le> uint c" "uint c \<le> 126" using a by (simp_all add: x_def)
  then show ?thesis by (simp add: printable_def word_le_def)
qed

lemma read_line_loop_inv:
  assumes "unat (max_size - 1) < length line" and "pos \<le> max_size - 1"
    and "\<forall>j<unat pos. printable (line ! j)"
  shows "read_line_loop k max_size pos line v keys \<noteq> Out_of_bounds \<and>
     (\<forall>pos' line' v' keys'. read_line_loop k max_size pos line v keys = Returned (pos', line', v', keys') \<longrightarrow>
        pos' \<le> max_size - 1 \<and> length line' = length line \<and> (\<forall>j<unat pos'. printable (line' ! j)))"
  using assms
proof (induction k max_size pos line v keys rule: read_line_loop.induct)
  case (1 k max_size pos line v)
  then show ?case by simp
next
  case (2 k max_size pos line v c cs)
  show ?case
  proof (cases "pos < max_size - 1")
    case False
    then show ?thesis using "2.prems" by simp
  next
    case lt: True
    then have ulim: "unat pos < unat (max_size - 1)" by (simp add: word_less_nat_alt)
    show ?thesis
    proof (cases "c = 10 \<or> c = 13")
      case True
      then show ?thesis using lt "2.prems" by auto
    next
      case nl: False
      show ?thesis
      proof (cases "c = 8")
        case bs: True
        show ?thesis
        proof (cases "pos > 0")
          case False
          then show ?thesis using lt nl bs "2.IH"(3) "2.prems" by simp
        next
          case pos: True
          then have "pos \<noteq> 0" by auto
          then have um: "unat (pos - 1) = unat pos - 1" by (rule unat_minus_one)
          have le: "pos - 1 \<le> max_size - 1"
            using um "2.prems"(2) by (simp add: word_le_nat_alt)
          have pr: "\<forall>j<unat (pos - 1). printable (line ! j)"
            using "2.prems"(3) um by auto
          show ?thesis
          proof (cases "vga_get_current_loc k v \<ge> 2")
            case True
            with "2.IH"(1)[OF lt nl bs pos refl True "2.prems"(1) le pr] lt nl bs pos
            show ?thesis by (simp add: Let_def)
          next
            case False
            with "2.IH"(2)[OF lt nl bs pos refl False "2.prems"(1) le pr] lt nl bs pos
            show ?thesis by (simp add: Let_def)
          qed
        qed
      next
        case nbs: False
        show ?thesis
        proof (cases "sint c \<ge> 0x20 \<and> sint c \<le> 0x7E")
          case npc: False
          from "2.IH"(5)[OF lt nl nbs npc "2.prems"]
          have ih: "read_line_loop k max_size pos line v cs \<noteq> Out_of_bounds \<and>
            (\<forall>pos' line' v' keys'. read_line_loop k max_size pos line v cs = Returned (pos', line', v', keys') \<longrightarrow>
              pos' \<le> max_size - 1 \<and> length line' = length line \<and> (\<forall>j<unat pos'. printable (line' ! j)))" .
          have "read_line_loop k max_size pos line v (c # cs) = read_line_loop k max_size pos line v cs"
            using lt nl nbs npc by auto
          then show ?thesis using ih by simp
        next
          case pc: True
          have inb: "unat pos < length line" using ulim "2.prems"(1) by simp
          then have bw: "buf_write line (unat pos) c = Some (line[unat pos := c])"
            by (simp add: buf_write_def)
          have "unat (max_size - 1) < 2 ^ 32" using unsigned_less[of "max_size - 1", where 'a=nat] by simp
          with ulim have "unat pos + 1 < 2 ^ 32" by simp
          then have up: "unat (pos + 1) = unat pos + 1" by (simp add: unat_word_ariths)
          then have le: "pos + 1 \<le> max_size - 1" using ulim by (simp add: word_le_nat_alt)
          have pr: "\<forall>j<unat (pos + 1). printable (line[unat pos := c] ! j)"
            using "2.prems"(3) inb pc sint_printable[of c]
            by (auto simp: up nth_list_update less_Suc_eq)
          have l: "unat (max_size - 1) < length (line[unat pos := c])" using "2.prems"(1) by simp
          from "2.IH"(4)[OF lt nl nbs pc bw l le pr] lt nl nbs pc bw
          show ?thesis by simp
        qed
      qed
    qed
  qed
qed

lemma read_line_loop_blocked:
  "read_line_loop k max_size pos line v keys = Blocked \<Longrightarrow> 10 \<notin> set keys \<and> 13 \<notin> set keys"
  by (induction k max_size pos line v keys rule: read_line_loop.induct)
     (auto simp: Let_def split: if_splits option.splits)

lemma deck_contract_complete:
  "deck_log s1 = deck_log s \<Longrightarrow> deck_contract entry s (deck_complete entry p r t s1)"
  by (simp add: deck_contract_def new_calls_def completions_def failures_def suspensions_def
      deck_complete_def)

lemma deck_contract_error:
  "deck_log s1 = deck_log s \<Longrightarrow> deck_contract entry s (deck_error_detailed entry p c m s1)"
  by (simp add: deck_contract_def new_calls_def completions_def failures_def suspensions_def
      deck_error_detailed_def)

lemma timer_create_log:
  "timer_create k now d iv e s = (r, s') \<Longrightarrow> deck_log s' = deck_log s"
  by (auto simp: timer_create_def split: option.splits)

lemma timer_cancel_log:
  "timer_cancel tid s = (r, s') \<Longrightarrow> deck_log s' = deck_log s"
  by (auto simp: timer_cancel_def split: option.splits)

lemma contract_timer_create: "deck_contract entry s (snd (hw_timer_create k now entry s))"
  by (auto simp: hw_timer_create_def Let_def deck_contract_complete deck_contract_error
      dest: timer_create_log split: prod.splits option.splits)

lemma contract_timer_cancel: "deck_contract entry s (snd (hw_timer_cancel k entry s))"
  by (auto simp: hw_timer_cancel_def Let_def deck_contract_complete deck_contract_error
      dest: timer_cancel_log split: prod.splits)

lemma timer_create_Some:
  assumes "timer_create k now d iv e s = (Some i, s')"
  shows "i < MAX_TIMERS" and "\<not> active (timers s i)" and "\<forall>j<i. active (timers s j)"
    and "s' = s\<lparr>timers := (timers s)(i := (timers s i)
                \<lparr>timer_id := atomic_increment_u64 k (next_timer_id s),
                 owner_workflow_id := (if e \<noteq> 0 then user_id (event_copy (entries s e)) else 0),
                 expiration := now + d * 2400000,
                 interval := iv * 2400000,
                 suspended_entry := e,
                 active := True\<rparr>),
             next_timer_id := next_timer_id s + 1\<rparr>"
proof -
  from assms have f: "find (\<lambda>i. \<not> active (timers s i)) [0..<MAX_TIMERS] = Some i"
    by (auto simp: timer_create_def split: option.splits)
  then show "i < MAX_TIMERS" "\<not> active (timers s i)" "\<forall>j<i. active (timers s j)"
    by (auto simp: find_upt_Some)
  from assms f show "s' = s\<lparr>timers := (timers s)(i := (timers s i)
                \<lparr>timer_id := atomic_increment_u64 k (next_timer_id s),
                 owner_workflow_id := (if e \<noteq> 0 then user_id (event_copy (entries s e)) else 0),
                 expiration := now + d * 2400000,
                 interval := iv * 2400000,
                 suspended_entry := e,
                 active := True\<rparr>),
             next_timer_id := next_timer_id s + 1\<rparr>"
    by (simp add: timer_create_def)
qed

lemma timer_create_None:
  "timer_create k now d iv e s = (None, s') \<Longrightarrow> s' = s \<and> (\<forall>i<MAX_TIMERS. active (timers s i))"
  by (auto simp: timer_create_def find_upt_Some find_upt_None split: option.splits)

lemma held_by_timer_iff:
  "held_by_timer entry s \<longleftrightarrow> (\<exists>i<MAX_TIMERS. active (timers s i) \<and> suspended_entry (timers s i) = entry)"
  by (auto simp: held_by_timer_def list_ex_iff)

lemma contract_timer_sleep: "deck_contract entry s (snd (hw_timer_sleep k now entry s))"
proof -
  let ?ms = "read_u64 (data (event_copy (entries s entry))) 0"
  show ?thesis
  proof (cases "?ms = 0 \<or> ?ms > 3600000")
    case True
    then show ?thesis
      by (auto simp: hw_timer_sleep_def Let_def deck_contract_error)
  next
    case ok: False
    obtain r s' where tc: "timer_create k now ?ms 0 entry s = (r, s')" by fastforce
    show ?thesis
    proof (cases r)
      case None
      with tc timer_create_None[of k now ?ms 0 entry s s'] ok show ?thesis
        by (simp add: hw_timer_sleep_def Let_def deck_contract_error)
    next
      case (Some i)
      note c = timer_create_Some[OF tc[unfolded Some]]
      let ?s'' = "s'\<lparr>entries := (entries s')(entry := (entries s' entry)\<lparr>state := EVENT_STATUS_SUSPENDED\<rparr>)\<rparr>"
      have "held_by_timer entry ?s''"
        unfolding held_by_timer_iff
        by (rule exI[of _ i]) (simp add: c(1) c(4))
      moreover have "deck_log ?s'' = deck_log s" by (simp add: c(4))
      ultimately have "deck_contract entry s ?s''"
        by (simp add: deck_contract_def new_calls_def completions_def failures_def suspensions_def)
      then show ?thesis using tc Some ok
        by (simp add: hw_timer_sleep_def Let_def)
    qed
  qed
qed

lemma contract_timer_getticks: "deck_contract entry s (snd (hw_timer_getticks k now entry s))"
  by (simp add: hw_timer_getticks_def deck_contract_complete)

lemma contract_dev_open: "deck_contract entry s (snd (hw_dev_open k entry s))"
  by (simp add: hw_dev_open_def Let_def deck_contract_complete deck_contract_error)

lemma contract_dev_ioctl: "deck_contract entry s (snd (hw_dev_ioctl k entry s))"
  by (simp add: hw_dev_ioctl_def Let_def deck_contract_complete deck_contract_error)

lemma contract_dev_read: "deck_contract entry s (snd (hw_dev_read k entry s))"
  by (simp add: hw_dev_read_def Let_def deck_contract_complete deck_contract_error)

lemma contract_dev_write: "deck_contract entry s (snd (hw_dev_write k entry s))"
  by (simp add: hw_dev_write_def Let_def deck_contract_complete deck_contract_error)

lemma contract_console_write: "deck_contract entry s (snd (hw_console_write k entry s))"
  by (simp add: hw_console_write_def Let_def deck_contract_complete deck_contract_error)

lemma contract_console_write_attr: "deck_contract entry s (snd (hw_console_write_attr k entry s))"
  by (simp add: hw_console_write_attr_def Let_def deck_contract_complete deck_contract_error)

lemma contract_console_read_char: "deck_contract entry s (snd (hw_console_read_char k entry s))"
  by (simp add: hw_console_read_char_def deck_contract_complete split: list.splits)

lemma contract_console_clear: "deck_contract entry s (snd (hw_console_clear k entry s))"
  by (simp add: hw_console_clear_def deck_contract_complete)

lemma contract_console_set_pos: "deck_contract entry s (snd (hw_console_set_pos k entry s))"
  by (simp add: hw_console_set_pos_def Let_def deck_contract_complete)

lemma contract_console_get_pos: "deck_contract entry s (snd (hw_console_get_pos k entry s))"
  by (simp add: hw_console_get_pos_def Let_def deck_contract_complete)

lemma contract_console_read_line:
  "hw_console_read_line k entry s = Returned (ret, s') \<Longrightarrow> deck_contract entry s s'"
  by (auto simp: hw_console_read_line_def Let_def deck_contract_complete deck_contract_error
      split: option.splits outcome.splits if_splits)

lemma effective_max_size:
  fixes requested :: u32
  defines "max_size \<equiv> (if requested = 0 \<or> requested > 256 then 256 else requested)"
  shows "max_size \<noteq> 0" and "max_size \<le> 256" and "unat (max_size - 1) = unat max_size - 1"
    and "0 < unat max_size"
proof -
  show nz: "max_size \<noteq> 0" by (simp add: max_size_def)
  show "max_size \<le> 256" by (auto simp: max_size_def)
  show "unat (max_size - 1) = unat max_size - 1" using nz by (rule unat_minus_one)
  show "0 < unat max_size" using nz by (simp add: unat_gt_0)
qed

lemma hw_console_read_line_result:
  fixes k entry s
  defines "requested \<equiv> read_u32 (data (event_copy (entries s entry))) 0"
  defines "max_size \<equiv> (if requested = 0 \<or> requested > 256 then 256 else requested)"
  shows "hw_console_read_line k entry s \<noteq> Out_of_bounds"
    and "kmalloc k (unat max_size) = None \<Longrightarrow>
         hw_console_read_line k entry s =
           Returned (0, deck_error_detailed entry (DECK_PREFIX_HARDWARE k) ERROR_OUT_OF_MEMORY
                          ''Console read line: failed to allocate buffer'' s)"
    and "kmalloc k (unat max_size) \<noteq> None \<Longrightarrow> hw_console_read_line k entry s = Returned (ret, s') \<Longrightarrow>
         ret = 1 \<and> (\<exists>line pos. deck_log s' = deck_log s @
             [Deck_complete entry (DECK_PREFIX_HARDWARE k) (Buffer line) RESULT_TYPE_KMALLOC] \<and>
           length line = unat max_size \<and> pos < length line \<and> line ! pos = 0 \<and>
           (\<forall>j<pos. printable (line ! j)))"
    and "hw_console_read_line k entry s = Blocked \<Longrightarrow>
           10 \<notin> set (keyboard s) \<and> 13 \<notin> set (keyboard s)"
proof -
  note ms = effective_max_size[of requested, folded max_size_def]
  have unf: "hw_console_read_line k entry s =
     (case kmalloc k (unat max_size) of
           None \<Rightarrow>
             Returned (0, deck_error_detailed entry (DECK_PREFIX_HARDWARE k) ERROR_OUT_OF_MEMORY
                            ''Console read line: failed to allocate buffer'' s)
         | Some mem \<Rightarrow>
             (case read_line_loop k max_size 0 (map mem [0..<unat max_size]) (vga s) (keyboard s) of
                Blocked \<Rightarrow> Blocked
              | Out_of_bounds \<Rightarrow> Out_of_bounds
              | Returned (pos, line, v, keys) \<Rightarrow>
                  (case buf_write line (unat pos) 0 of
                     None \<Rightarrow> Out_of_bounds
                   | Some line' \<Rightarrow>
                       Returned (1, deck_complete entry (DECK_PREFIX_HARDWARE k) (Buffer line')
                                      RESULT_TYPE_KMALLOC (s\<lparr>vga := v, keyboard := keys\<rparr>)))))"
    unfolding hw_console_read_line_def Let_def requested_def max_size_def ..
  have inv: "read_line_loop k max_size 0 (map mem [0..<unat max_size]) (vga s) (keyboard s) \<noteq> Out_of_bounds \<and>
     (\<forall>pos' line' v' keys'. read_line_loop k max_size 0 (map mem [0..<unat max_size]) (vga s) (keyboard s) = Returned (pos', line', v', keys') \<longrightarrow>
        pos' \<le> max_size - 1 \<and> length line' = length (map mem [0..<unat max_size]) \<and> (\<forall>j<unat pos'. printable (line' ! j)))"
    for mem
    by (rule read_line_loop_inv) (use ms in simp_all)
  have fin: "unat pos' < length line' \<and> length line' = unat max_size \<and> (\<forall>j<unat pos'. printable (line' ! j))"
    if "read_line_loop k max_size 0 (map mem [0..<unat max_size]) (vga s) (keyboard s) = Returned (pos', line', v', keys')"
    for mem pos' line' v' keys'
  proof -
    from inv[of mem] that have a: "pos' \<le> max_size - 1" "length line' = unat max_size"
      "\<forall>j<unat pos'. printable (line' ! j)" by auto
    from a(1) have "unat pos' \<le> unat max_size - 1" using ms(3) by (simp add: word_le_nat_alt)
    with ms(4) a show ?thesis by simp
  qed
  show "hw_console_read_line k entry s \<noteq> Out_of_bounds"
  proof (cases "kmalloc k (unat max_size)")
    case None
    then show ?thesis unfolding unf by simp
  next
    case (Some mem)
    show ?thesis
    proof (cases "read_line_loop k max_size 0 (map mem [0..<unat max_size]) (vga s) (keyboard s)")
      case (Returned r)
      obtain pos line v keys where r: "r = (pos, line, v, keys)" by (cases r) auto
      from fin[OF Returned[unfolded r]] Returned show ?thesis
        by (simp add: unf Some r buf_write_def)
    next
      case Blocked
      then show ?thesis by (simp add: unf Some)
    next
      case Out_of_bounds
      with inv[of mem] show ?thesis by simp
    qed
  qed
  show "kmalloc k (unat max_size) = None \<Longrightarrow>
         hw_console_read_line k entry s =
           Returned (0, deck_error_detailed entry (DECK_PREFIX_HARDWARE k) ERROR_OUT_OF_MEMORY
                          ''Console read line: failed to allocate buffer'' s)"
    unfolding unf by simp
  show "hw_console_read_line k entry s = Blocked \<Longrightarrow>
           10 \<notin> set (keyboard s) \<and> 13 \<notin> set (keyboard s)"
    unfolding unf
    by (auto split: option.splits outcome.splits dest: read_line_loop_blocked)
  show "ret = 1 \<and> (\<exists>line pos. deck_log s' = deck_log s @
             [Deck_complete entry (DECK_PREFIX_HARDWARE k) (Buffer line) RESULT_TYPE_KMALLOC] \<and>
           length line = unat max_size \<and> pos < length line \<and> line ! pos = 0 \<and>
           (\<forall>j<pos. printable (line ! j)))"
    if km: "kmalloc k (unat max_size) \<noteq> None" and r: "hw_console_read_line k entry s = Returned (ret, s')"
  proof -
    from km obtain mem where mem: "kmalloc k (unat max_size) = Some mem" by auto
    from r obtain pos line v keys where
      l: "read_line_loop k max_size 0 (map mem [0..<unat max_size]) (vga s) (keyboard s) = Returned (pos, line, v, keys)"
      by (auto simp: unf mem split: outcome.splits)
    note f = fin[OF l]
    from r have s': "ret = 1" "s' = deck_complete entry (DECK_PREFIX_HARDWARE k) (Buffer (line[unat pos := 0]))
                                      RESULT_TYPE_KMALLOC (s\<lparr>vga := v, keyboard := keys\<rparr>)"
      using f by (simp_all add: unf mem l buf_write_def)
    show ?thesis
    proof (intro conjI exI[of _ "line[unat pos := 0]"] exI[of _ "unat pos"])
      show "ret = 1" by (fact s'(1))
      show "deck_log s' = deck_log s @ [Deck_complete entry (DECK_PREFIX_HARDWARE k) (Buffer (line[unat pos := 0])) RESULT_TYPE_KMALLOC]"
        by (simp add: s'(2) deck_complete_def)
      show "length (line[unat pos := 0]) = unat max_size" using f by simp
      show "unat pos < length (line[unat pos := 0])" using f by simp
      show "line[unat pos := 0] ! unat pos = 0" using f by simp
      show "\<forall>j<unat pos. printable (line[unat pos := 0] ! j)" using f by simp
    qed
  qed
qed

lemmas handler_contracts =
  contract_timer_create contract_timer_cancel contract_timer_sleep contract_timer_getticks
  contract_dev_open contract_dev_ioctl contract_dev_read contract_dev_write
  contract_console_write contract_console_write_attr contract_console_read_char
  contract_console_clear contract_console_set_pos contract_console_get_pos

lemma contract_of_snd: "deck_contract entry s (snd x) \<Longrightarrow> x = (ret, s') \<Longrightarrow> deck_contract entry s s'"
  by auto

lemma process_returned_contract:
  assumes "entry \<noteq> 0" and "hardware_deck_process k now entry s = Returned (ret, s')"
  shows "deck_contract entry s s'"
  using assms(2) unfolding hardware_deck_process_def Let_def
  by (simp add: assms(1) split: if_splits)
     (auto intro: contract_of_snd[OF handler_contracts(1)] contract_of_snd[OF handler_contracts(2)]
        contract_of_snd[OF handler_contracts(3)] contract_of_snd[OF handler_contracts(4)]
        contract_of_snd[OF handler_contracts(5)] contract_of_snd[OF handler_contracts(6)]
        contract_of_snd[OF handler_contracts(7)] contract_of_snd[OF handler_contracts(8)]
        contract_of_snd[OF handler_contracts(9)] contract_of_snd[OF handler_contracts(10)]
        contract_of_snd[OF handler_contracts(11)] contract_of_snd[OF handler_contracts(12)]
        contract_of_snd[OF handler_contracts(13)] contract_of_snd[OF handler_contracts(14)]
        contract_console_read_line deck_contract_error)

lemma process_not_out_of_bounds: "hardware_deck_process k now entry s \<noteq> Out_of_bounds"
  unfolding hardware_deck_process_def Let_def
  by (simp add: hw_console_read_line_result(1))

lemma process_blocked:
  "hardware_deck_process k now entry s = Blocked \<Longrightarrow>
   ev_type (event_copy (entries s entry)) = EVENT_CONSOLE_READ_LINE \<and>
   10 \<notin> set (keyboard s) \<and> 13 \<notin> set (keyboard s)"
  unfolding hardware_deck_process_def Let_def
  by (simp split: if_splits add: hw_console_read_line_result(4))

lemma read_u32_bytes_at:
  "read_u32 (bytes_at (b0 # b1 # b2 # b3 # bs)) 0 = word_rcat [b3, b2, b1, b0]"
  "read_u32 (bytes_at [b]) 0 = ucast b"
  by (simp_all add: read_u32_def le_word_def bytes_at_def upt_rec word_rcat_def)

lemma fixture_entries:
  "entries sleep_state 16 = mk_entry 52 [50] EVENT_STATUS_PROCESSING"
  "entries console_hi_state 16 = mk_entry 70 [2, 0, 0, 0, 0x68, 0x69] EVENT_STATUS_PROCESSING"
  "entries cancel_zero_state 16 = mk_entry 51 [] EVENT_STATUS_PROCESSING"
  "entries read_line_state 16 = mk_entry 72 [4] EVENT_STATUS_PROCESSING"
  by (simp_all add: sleep_state_def console_hi_state_def cancel_zero_state_def read_line_state_def)

lemma mk_entry_simps:
  "ev_type (event_copy (mk_entry ty p st)) = ty"
  "data (event_copy (mk_entry ty p st)) = bytes_at p"
  "state (mk_entry ty p st) = st"
  "user_id (event_copy (mk_entry ty p st)) = 1"
  "ev_id (event_copy (mk_entry ty p st)) = 7"
  by (simp_all add: mk_entry_def)

lemma timer_create_first_free:
  assumes "i < MAX_TIMERS" and "\<not> active (timers s i)" and "\<forall>j<i. active (timers s j)"
  shows "timer_create k now d iv e s =
     (Some i, s\<lparr>timers := (timers s)(i := (timers s i)
                \<lparr>timer_id := atomic_increment_u64 k (next_timer_id s),
                 owner_workflow_id := (if e \<noteq> 0 then user_id (event_copy (entries s e)) else 0),
                 expiration := now + d * 2400000,
                 interval := iv * 2400000,
                 suspended_entry := e,
                 active := True\<rparr>),
             next_timer_id := next_timer_id s + 1\<rparr>)"
proof -
  have "find (\<lambda>i. \<not> active (timers s i)) [0..<MAX_TIMERS] = Some i"
    using assms by (simp add: find_upt_Some)
  then show ?thesis by (simp add: timer_create_def)
qed

lemma hw_timer_sleep_success:
  assumes "ms = read_u64 (data (event_copy (entries s entry))) 0"
    and "ms \<noteq> 0" and "ms \<le> 3600000"
    and "i < MAX_TIMERS" and "\<not> active (timers s i)" and "\<forall>j<i. active (timers s j)"
  shows "hw_timer_sleep k now entry s =
     (1, s\<lparr>timers := (timers s)(i := (timers s i)
                \<lparr>timer_id := atomic_increment_u64 k (next_timer_id s),
                 owner_workflow_id := (if entry \<noteq> 0 then user_id (event_copy (entries s entry)) else 0),
                 expiration := now + ms * 2400000,
                 interval := 0,
                 suspended_entry := entry,
                 active := True\<rparr>),
             next_timer_id := next_timer_id s + 1,
             entries := (entries s)(entry := (entries s entry)\<lparr>state := EVENT_STATUS_SUSPENDED\<rparr>)\<rparr>)"
  using assms(1-3) timer_create_first_free[OF assms(4-6), of k now ms 0 entry]
  by (simp add: hw_timer_sleep_def Let_def not_less[symmetric])

lemma process_timer_sleep:
  assumes "entry \<noteq> 0" "ev_type (event_copy (entries s entry)) = EVENT_TIMER_SLEEP" "labels_distinct k"
  shows "hardware_deck_process k now entry s = Returned (hw_timer_sleep k now entry s)"
  using assms
  by (simp add: hardware_deck_process_def Let_def labels_distinct_def case_labels_def event_numbers)

lemma fixture_fields:
  "timers sleep_state = (\<lambda>i. idle_timer)" "deck_log sleep_state = []"
  "timers console_hi_state = (\<lambda>i. idle_timer)" "deck_log console_hi_state = []"
  "vga console_hi_state = []"
  "timers cancel_zero_state = (\<lambda>i. idle_timer)" "deck_log cancel_zero_state = []"
  "timers read_line_state = (\<lambda>i. idle_timer)" "deck_log read_line_state = []"
  "vga read_line_state = []" "keyboard read_line_state = [0x61, 0x62, 8, 0x63, 0x64, 0x65, 10]"
  by (simp_all add: sleep_state_def console_hi_state_def cancel_zero_state_def read_line_state_def hw_boot_def)



lemma process_console_read_line:
  assumes "entry \<noteq> 0" "ev_type (event_copy (entries s entry)) = EVENT_CONSOLE_READ_LINE" "labels_distinct k"
  shows "hardware_deck_process k now entry s = hw_console_read_line k entry s"
  using assms
  by (simp add: hardware_deck_process_def Let_def labels_distinct_def case_labels_def event_numbers)



lemma complete_and_suspend_breaks_contract:
  assumes "deck_log s' = deck_log s @ [Deck_complete entry p r t]"
    and "state (entries s' entry) = EVENT_STATUS_SUSPENDED" and "held_by_timer entry s'"
  shows "\<not> deck_contract entry s s'"
  using assms
  by (simp add: deck_contract_def new_calls_def completions_def failures_def suspensions_def)





lemma read_line_state_run:
  "hw_console_read_line env0 16 read_line_state =
     Returned (1, deck_complete 16 3 (Buffer [0x61, 0x63, 0x64, 0]) RESULT_TYPE_KMALLOC
                    (read_line_state\<lparr>vga := [Vga_print_char 0x61 VGA_INPUT, Vga_print_char 0x62 VGA_INPUT,
                                             Vga_print_char 0x63 VGA_INPUT, Vga_print_char 0x64 VGA_INPUT],
                                      keyboard := [0x65, 10]\<rparr>))"
  by (simp add: hw_console_read_line_def Let_def fixture_entries mk_entry_simps read_u32_bytes_at
      env0_simps fixture_fields buf_write_def upt_rec)

text \<open>
  Claim C10.  For a console read-line event, a requested \<open>max_size\<close> of 0 or above 256 is
  replaced by 256.  The call never writes outside the block of \<open>max_size\<close> bytes it
  allocates.  When the allocation fails the entry fails with the out-of-memory error.
  Otherwise, when the call returns, it has completed the entry with the block as a KMALLOC
  result, and the block holds, at some position \<open>pos \<le> max_size - 1\<close>, a NUL, with only
  printable characters (0x20..0x7E) before it.  The call returns whenever a line
  terminator is among the keys to come.
\<close>

theorem console_read_line_well_formed:
  assumes "entry \<noteq> 0"
    and "ev_type (event_copy (entries s entry)) = EVENT_CONSOLE_READ_LINE"
    and "labels_distinct k"
    and "requested = read_u32 (data (event_copy (entries s entry))) 0"
    and "max_size = (if requested = 0 \<or> requested > 256 then 256 else requested)"
  shows "hardware_deck_process k now entry s \<noteq> Out_of_bounds \<and>
         (kmalloc k (unat max_size) = None \<longrightarrow>
            hardware_deck_process k now entry s =
              Returned (0, deck_error_detailed entry (DECK_PREFIX_HARDWARE k) ERROR_OUT_OF_MEMORY
                             ''Console read line: failed to allocate buffer'' s)) \<and>
         (\<forall>ret s'. kmalloc k (unat max_size) \<noteq> None \<and>
                   hardware_deck_process k now entry s = Returned (ret, s') \<longrightarrow>
            ret = 1 \<and>
            (\<exists>line pos. deck_log s' = deck_log s @
                 [Deck_complete entry (DECK_PREFIX_HARDWARE k) (Buffer line) RESULT_TYPE_KMALLOC] \<and>
               length line = unat max_size \<and> pos < length line \<and> line ! pos = 0 \<and>
               (\<forall>j<pos. printable (line ! j)))) \<and>
         (10 \<in> set (keyboard s) \<or> 13 \<in> set (keyboard s) \<longrightarrow>
            (\<exists>ret s'. hardware_deck_process k now entry s = Returned (ret, s')))"
proof -
  note p = process_console_read_line[OF assms(1-3), of now]
  note r = hw_console_read_line_result[where k=k and entry=entry and s=s, folded assms(4), folded assms(5)]
  have ret: "\<exists>ret s'. hw_console_read_line k entry s = Returned (ret, s')"
    if "10 \<in> set (keyboard s) \<or> 13 \<in> set (keyboard s)"
  proof (cases "hw_console_read_line k entry s")
    case (Returned x)
    then show ?thesis by (cases x) auto
  next
    case Blocked
    from r(4)[OF this] that show ?thesis by auto
  next
    case Out_of_bounds
    with r(1) show ?thesis by simp
  qed
  show ?thesis
    unfolding p using r(1) r(2) r(3) ret by blast
qed

theorem console_read_line_well_formed_witness:
  "\<exists>s'. hardware_deck_process env0 0 16 read_line_state = Returned (1, s') \<and>
        deck_log s' = [Deck_complete 16 3 (Buffer [0x61, 0x63, 0x64, 0]) RESULT_TYPE_KMALLOC] \<and>
        keyboard s' = [0x65, 10] \<and>
        (\<exists>line pos. deck_log s' = deck_log read_line_state @
             [Deck_complete 16 (DECK_PREFIX_HARDWARE env0) (Buffer line) RESULT_TYPE_KMALLOC] \<and>
           length line = unat (4 :: u32) \<and> pos < length line \<and> line ! pos = 0 \<and>
           list_all printable (take pos line))"
proof -
  define s' where "s' = deck_complete 16 3 (Buffer [0x61, 0x63, 0x64, 0]) RESULT_TYPE_KMALLOC
                    (read_line_state\<lparr>vga := [Vga_print_char 0x61 VGA_INPUT, Vga_print_char 0x62 VGA_INPUT,
                                             Vga_print_char 0x63 VGA_INPUT, Vga_print_char 0x64 VGA_INPUT],
                                      keyboard := [0x65, 10]\<rparr>)"
  have h: "(16::nat) \<noteq> 0" "ev_type (event_copy (entries read_line_state 16)) = EVENT_CONSOLE_READ_LINE"
    "labels_distinct env0" "4 = read_u32 (data (event_copy (entries read_line_state 16))) 0"
    "(4 :: u32) = (if (4 :: u32) = 0 \<or> (4 :: u32) > 256 then 256 else 4)"
    by (simp_all add: fixture_entries mk_entry_simps EVENT_CONSOLE_READ_LINE_def env0_labels_distinct
        read_u32_bytes_at)
  note T = console_read_line_well_formed[OF h, of 0]
  have r: "hardware_deck_process env0 0 16 read_line_state = Returned (1, s')"
    using process_console_read_line[OF h(1-3), of 0] read_line_state_run by (simp add: s'_def)
  have km: "kmalloc env0 (unat (4 :: u32)) \<noteq> None" by (simp add: env0_simps)
  from T km r obtain line pos where
    lp: "deck_log s' = deck_log read_line_state @
             [Deck_complete 16 (DECK_PREFIX_HARDWARE env0) (Buffer line) RESULT_TYPE_KMALLOC]"
      "length line = unat (4 :: u32)" "pos < length line" "line ! pos = 0"
      "\<forall>j<pos. printable (line ! j)"
    by blast
  have "list_all printable (take pos line)"
    using lp(3,5) by (auto simp: list_all_length)
  moreover have "deck_log s' = [Deck_complete 16 3 (Buffer [0x61, 0x63, 0x64, 0]) RESULT_TYPE_KMALLOC]"
    "keyboard s' = [0x65, 10]"
    by (simp_all add: s'_def deck_complete_def fixture_fields)
  ultimately show ?thesis using r lp by blast
qed

section \<open>The periodic sweep\<close>

lemma sweep_to_0: "sweep_to k now 0 s = s"
  by (simp add: sweep_to_def)

lemma sweep_to_Suc: "sweep_to k now (Suc n) s = expire_slot k now n (sweep_to k now n s)"
  by (simp add: sweep_to_def)

lemma timer_check_expired_sweep_to: "timer_check_expired k now s = sweep_to k now MAX_TIMERS s"
  by (simp add: timer_check_expired_def sweep_to_def)

lemma expire_slot_timers:
  "timers (expire_slot k now i s) = (timers s)(i := swept now (timers s i))"
  by (auto simp: expire_slot_def Let_def swept_def fires_def deck_complete_def fun_eq_iff)

lemma expire_slot_log:
  "deck_log (expire_slot k now i s) =
     deck_log s @ (if fires now (timers s i) \<and> suspended_entry (timers s i) \<noteq> 0
                   then [Deck_complete (suspended_entry (timers s i)) (DECK_PREFIX_HARDWARE k) (Value 0) RESULT_TYPE_NONE]
                   else [])"
  by (auto simp: expire_slot_def Let_def fires_def deck_complete_def)

lemma expire_slot_entries:
  "entries (expire_slot k now i s) =
     (if fires now (timers s i) \<and> suspended_entry (timers s i) \<noteq> 0
      then (entries s)(suspended_entry (timers s i) :=
             (entries s (suspended_entry (timers s i)))\<lparr>state := EVENT_STATUS_PROCESSING, slot_free := True\<rparr>)
      else entries s)"
  by (auto simp: expire_slot_def Let_def fires_def deck_complete_def fun_eq_iff)

lemma expire_slot_other:
  "next_timer_id (expire_slot k now i s) = next_timer_id s"
  "vga (expire_slot k now i s) = vga s"
  "keyboard (expire_slot k now i s) = keyboard s"
  by (auto simp: expire_slot_def Let_def deck_complete_def)

lemma sweep_to_timers:
  "timers (sweep_to k now n s) i = (if i < n then swept now (timers s i) else timers s i)"
  by (induction n) (auto simp: sweep_to_0 sweep_to_Suc expire_slot_timers less_Suc_eq)

lemma sweep_to_log:
  "deck_log (sweep_to k now n s) =
     deck_log s @ map (\<lambda>i. Deck_complete (suspended_entry (timers s i)) (DECK_PREFIX_HARDWARE k) (Value 0) RESULT_TYPE_NONE)
                      (waking_slots now s n)"
  by (induction n) (auto simp: sweep_to_0 sweep_to_Suc expire_slot_log sweep_to_timers waking_slots_def)

lemma sweep_to_entries:
  "entries (sweep_to k now n s) p =
     (if p \<in> (\<lambda>i. suspended_entry (timers s i)) ` set (waking_slots now s n)
      then (entries s p)\<lparr>state := EVENT_STATUS_PROCESSING, slot_free := True\<rparr>
      else entries s p)"
  by (induction n) (auto simp: sweep_to_0 sweep_to_Suc expire_slot_entries sweep_to_timers waking_slots_def)

lemma sweep_to_event_copy:
  "event_copy (entries (sweep_to k now n s) p) = event_copy (entries s p)"
  by (simp add: sweep_to_entries)

lemma expire_slot_responses:
  "responses (expire_slot k now i s) =
     responses s @ (if fires now (timers s i) \<and> suspended_entry (timers s i) \<noteq> 0
                   then [\<lparr>resp_event_id = ev_id (event_copy (entries s (suspended_entry (timers s i)))),
                          resp_workflow_id = user_id (event_copy (entries s (suspended_entry (timers s i)))),
                          resp_status = STATUS_SUCCESS, resp_error = None,
                          resp_result = Value 0, resp_result_kind = RESULT_TYPE_NONE,
                          resp_deck = DECK_PREFIX_HARDWARE k, resp_message = []\<rparr>]
                   else [])"
  by (auto simp: expire_slot_def Let_def fires_def deck_complete_def)

lemma sweep_to_responses:
  "responses (sweep_to k now n s) =
     responses s @ map (\<lambda>i. \<lparr>resp_event_id = ev_id (event_copy (entries s (suspended_entry (timers s i)))),
                          resp_workflow_id = user_id (event_copy (entries s (suspended_entry (timers s i)))),
                          resp_status = STATUS_SUCCESS, resp_error = None,
                          resp_result = Value 0, resp_result_kind = RESULT_TYPE_NONE,
                          resp_deck = DECK_PREFIX_HARDWARE k, resp_message = []\<rparr>)
                      (waking_slots now s n)"
  by (induction n)
     (auto simp: sweep_to_0 sweep_to_Suc expire_slot_responses sweep_to_timers sweep_to_event_copy
        waking_slots_def)

lemma sweep_new_calls:
  "new_calls s (timer_check_expired k now s) =
     map (\<lambda>i. Deck_complete (suspended_entry (timers s i)) (DECK_PREFIX_HARDWARE k) (Value 0) RESULT_TYPE_NONE)
         (waking_slots now s MAX_TIMERS)"
  by (simp add: new_calls_def timer_check_expired_sweep_to sweep_to_log)

text \<open>
  Claim C1 (amended).  One sweep at clock reading \<open>now\<close>.  For every slot that is active
  and whose expiration has passed: if the slot is linked to an entry, the sweep completes
  that entry itself, by \<open>deck_complete\<close> with the hardware prefix, a null result and
  RESULT_TYPE_NONE, then sets the entry's state to PROCESSING, and clears the link;
  afterwards the slot is rescheduled to \<open>now + interval\<close> when \<open>interval > 0\<close> and
  deactivated when \<open>interval = 0\<close>.  Every other slot is left as it was.  The sweep makes
  one call, and sends one Response, for each linked slot that fired.
\<close>

theorem timer_check_expired_completes_and_reschedules:
  assumes "i < MAX_TIMERS" and "s' = timer_check_expired k now s"
  shows "(active (timers s i) \<and> now \<ge> expiration (timers s i) \<longrightarrow>
            suspended_entry (timers s' i) = 0 \<and>
            (interval (timers s i) > 0 \<longrightarrow>
               active (timers s' i) \<and> expiration (timers s' i) = now + interval (timers s i)) \<and>
            (interval (timers s i) = 0 \<longrightarrow> \<not> active (timers s' i)) \<and>
            (suspended_entry (timers s i) \<noteq> 0 \<longrightarrow>
               Deck_complete (suspended_entry (timers s i)) (DECK_PREFIX_HARDWARE k) (Value 0)
                   RESULT_TYPE_NONE \<in> set (new_calls s s') \<and>
               state (entries s' (suspended_entry (timers s i))) = EVENT_STATUS_PROCESSING)) \<and>
         (\<not> (active (timers s i) \<and> now \<ge> expiration (timers s i)) \<longrightarrow> timers s' i = timers s i) \<and>
         deck_log s' = deck_log s @ new_calls s s' \<and>
         length (new_calls s s') = length (waking_slots now s MAX_TIMERS) \<and>
         length (responses s') = length (responses s) + length (waking_slots now s MAX_TIMERS)"
proof -
  have t: "timers s' i = swept now (timers s i)"
    using assms by (simp add: timer_check_expired_sweep_to sweep_to_timers)
  have w: "i \<in> set (waking_slots now s MAX_TIMERS)"
    if "active (timers s i) \<and> now \<ge> expiration (timers s i)" "suspended_entry (timers s i) \<noteq> 0"
    using that assms(1) by (simp add: waking_slots_def fires_def)
  have c: "Deck_complete (suspended_entry (timers s i)) (DECK_PREFIX_HARDWARE k) (Value 0)
                   RESULT_TYPE_NONE \<in> set (new_calls s s')"
    if "active (timers s i) \<and> now \<ge> expiration (timers s i)" "suspended_entry (timers s i) \<noteq> 0"
    using w[OF that] by (auto simp: assms(2) sweep_new_calls)
  have e: "state (entries s' (suspended_entry (timers s i))) = EVENT_STATUS_PROCESSING"
    if "active (timers s i) \<and> now \<ge> expiration (timers s i)" "suspended_entry (timers s i) \<noteq> 0"
    using w[OF that] by (auto simp: assms(2) timer_check_expired_sweep_to sweep_to_entries)
  have l: "deck_log s' = deck_log s @ new_calls s s'"
    by (simp add: assms(2) new_calls_def timer_check_expired_sweep_to sweep_to_log)
  have n: "length (new_calls s s') = length (waking_slots now s MAX_TIMERS)"
    by (simp add: assms(2) sweep_new_calls)
  have r: "length (responses s') = length (responses s) + length (waking_slots now s MAX_TIMERS)"
    by (simp add: assms(2) timer_check_expired_sweep_to sweep_to_responses)
  show ?thesis
    using c e l n r by (auto simp: t swept_def fires_def)
qed

lemma filter_upt_index: "j < n \<Longrightarrow> filter (\<lambda>i. i = j) [0..<n] = [j]"
  by (induction n) (auto simp: less_Suc_eq)

lemma waking_slots_single:
  assumes "timers s = (\<lambda>i. idle_timer)(j := t)" and "fires now t" and "suspended_entry t \<noteq> 0"
    and "j < n"
  shows "waking_slots now s n = [j]"
proof -
  have "(fires now (timers s i) \<and> suspended_entry (timers s i) \<noteq> 0) = (i = j)" for i
    using assms(1-3) by (simp add: fires_def idle_timer_def)
  then show ?thesis using assms(4) by (simp add: waking_slots_def filter_upt_index)
qed

lemma linked_fixture:
  "timers cancel_linked_state = (\<lambda>i. idle_timer)(3 :=
       \<lparr>timer_id = 5, owner_workflow_id = 1, expiration = 1000, interval = 0,
        timer_event_id = 0, suspended_entry = 32, active = True\<rparr>)"
  "entries cancel_linked_state 32 = mk_entry 52 [50] EVENT_STATUS_SUSPENDED"
  "deck_log cancel_linked_state = []" "responses cancel_linked_state = []"
  by (simp_all add: cancel_linked_state_def hw_boot_def)

lemma linked_fixture_waking: "waking_slots 2000 cancel_linked_state MAX_TIMERS = [3]"
  by (rule waking_slots_single[OF linked_fixture(1)]) (simp_all add: fires_def MAX_TIMERS_def)

theorem timer_check_expired_completes_and_reschedules_witness:
  "active (timers cancel_linked_state 3) \<and> 2000 \<ge> expiration (timers cancel_linked_state 3) \<and>
   interval (timers cancel_linked_state 3) = 0 \<and> suspended_entry (timers cancel_linked_state 3) = 32 \<and>
   state (entries cancel_linked_state 32) = EVENT_STATUS_SUSPENDED \<and>
   suspended_entry (timers (timer_check_expired env0 2000 cancel_linked_state) 3) = 0 \<and>
   \<not> active (timers (timer_check_expired env0 2000 cancel_linked_state) 3) \<and>
   Deck_complete 32 3 (Value 0) RESULT_TYPE_NONE
     \<in> set (new_calls cancel_linked_state (timer_check_expired env0 2000 cancel_linked_state)) \<and>
   state (entries (timer_check_expired env0 2000 cancel_linked_state) 32) = EVENT_STATUS_PROCESSING \<and>
   timers (timer_check_expired env0 2000 cancel_linked_state) 4 = timers cancel_linked_state 4"
proof -
  have f: "active (timers cancel_linked_state 3) \<and> 2000 \<ge> expiration (timers cancel_linked_state 3)"
    "interval (timers cancel_linked_state 3) = 0" "suspended_entry (timers cancel_linked_state 3) = 32"
    "state (entries cancel_linked_state 32) = EVENT_STATUS_SUSPENDED"
    "\<not> (active (timers cancel_linked_state 4) \<and> 2000 \<ge> expiration (timers cancel_linked_state 4))"
    by (simp_all add: linked_fixture mk_entry_simps idle_timer_def)
  have i: "3 < MAX_TIMERS" "4 < MAX_TIMERS" by (simp_all add: MAX_TIMERS_def)
  note T3 = timer_check_expired_completes_and_reschedules[OF i(1) refl, of cancel_linked_state 2000 env0]
  note T4 = timer_check_expired_completes_and_reschedules[OF i(2) refl, of cancel_linked_state 2000 env0]
  from T3 f(1-3) have
    "suspended_entry (timers (timer_check_expired env0 2000 cancel_linked_state) 3) = 0"
    "\<not> active (timers (timer_check_expired env0 2000 cancel_linked_state) 3)"
    "Deck_complete 32 (DECK_PREFIX_HARDWARE env0) (Value 0) RESULT_TYPE_NONE
       \<in> set (new_calls cancel_linked_state (timer_check_expired env0 2000 cancel_linked_state))"
    "state (entries (timer_check_expired env0 2000 cancel_linked_state) 32) = EVENT_STATUS_PROCESSING"
    by simp_all
  moreover from T4 f(5) have
    "timers (timer_check_expired env0 2000 cancel_linked_state) 4 = timers cancel_linked_state 4"
    by blast
  ultimately show ?thesis using f(1-4) by (simp add: env0_simps)
qed

text \<open>
  One sweep at clock 2000 over a table whose slot 3 expired at 1000 and is linked to the
  suspended entry 32: the sweep itself calls \<open>deck_complete\<close> on that entry, and the success
  response for the entry's event is out when the sweep returns.
\<close>

theorem timer_check_expired_completes_entry:
  "state (entries cancel_linked_state 32) = EVENT_STATUS_SUSPENDED \<and>
   deck_log cancel_linked_state = [] \<and> responses cancel_linked_state = [] \<and>
   deck_log (timer_check_expired env0 2000 cancel_linked_state) =
     [Deck_complete 32 3 (Value 0) RESULT_TYPE_NONE] \<and>
   map resp_status (responses (timer_check_expired env0 2000 cancel_linked_state)) = [STATUS_SUCCESS] \<and>
   map resp_event_id (responses (timer_check_expired env0 2000 cancel_linked_state)) = [7]"
  by (simp add: timer_check_expired_sweep_to sweep_to_log sweep_to_responses linked_fixture_waking
      linked_fixture mk_entry_simps env0_simps)

section \<open>Event types outside the deck's range\<close>

lemma process_out_of_range:
  assumes "entry \<noteq> 0" and "ev_type (event_copy (entries s entry)) < 40 \<or> ev_type (event_copy (entries s entry)) \<ge> 80"
  shows "hardware_deck_process k now entry s =
     Returned (0, deck_error_detailed entry (DECK_PREFIX_HARDWARE k) ERROR_INVALID_PARAMETER
                    ''Event type out of hardware range (40-79)'' s)"
  using assms by (auto simp: hardware_deck_process_def Let_def not_le not_less)

lemma process_default:
  assumes "entry \<noteq> 0" and "40 \<le> ev_type (event_copy (entries s entry))"
    and "ev_type (event_copy (entries s entry)) < 80"
    and "ev_type (event_copy (entries s entry)) \<notin> set (case_labels k)"
  shows "hardware_deck_process k now entry s =
     Returned (0, deck_error_detailed entry (DECK_PREFIX_HARDWARE k) ERROR_NOT_IMPLEMENTED
                    ''Hardware operation type not implemented'' s)"
  using assms by (simp add: hardware_deck_process_def Let_def case_labels_def)

lemma gap_not_a_label:
  assumes "labels_in_documented_ranges k" and "60 \<le> ty" and "ty \<le> 69"
  shows "ty \<notin> set (case_labels k)"
proof -
  have r: "\<not> (50 \<le> ty \<and> ty \<le> 59)" "\<not> (40 \<le> ty \<and> ty \<le> 49)" "\<not> 70 \<le> ty"
    using assms(2,3) by (auto simp: word_le_nat_alt)
  have "ty \<noteq> EVENT_TIMER_CREATE k" "ty \<noteq> EVENT_TIMER_CANCEL k" "ty \<noteq> EVENT_TIMER_GETTICKS k"
    "ty \<noteq> EVENT_DEV_OPEN k" "ty \<noteq> EVENT_DEV_IOCTL k" "ty \<noteq> EVENT_DEV_READ k" "ty \<noteq> EVENT_DEV_WRITE k"
    using assms(1) r by (auto simp: labels_in_documented_ranges_def)
  moreover have "ty \<noteq> 52" "ty \<noteq> 70" "ty \<noteq> 71" "ty \<noteq> 72" "ty \<noteq> 73" "ty \<noteq> 74" "ty \<noteq> 75" "ty \<noteq> 76"
    using r by auto
  ultimately show ?thesis by (simp add: case_labels_def event_numbers)
qed

text \<open>
  Claim C6 (amended).  For a non-null entry whose event type lies outside 40..79,
  \<open>hardware_deck_process\<close> rejects the entry with the invalid-parameter error.  For a type
  inside 40..79 that is no case label of the \<open>switch\<close>, it rejects the entry with the
  not-implemented error; with timer labels in 50..59 and device labels in 40..49, every
  type in 60..69 is such a type.  In both cases the state returned is the state received
  with the failure recorded on the entry: the timer table, the VGA calls, the keyboard and
  the other entries are as before, so no handler ran.
\<close>

theorem hardware_deck_process_rejects_unknown_types:
  assumes "entry \<noteq> 0" and "ty = ev_type (event_copy (entries s entry))"
  shows "(ty < 40 \<or> ty \<ge> 80 \<longrightarrow>
            hardware_deck_process k now entry s =
              Returned (0, deck_error_detailed entry (DECK_PREFIX_HARDWARE k) ERROR_INVALID_PARAMETER
                             ''Event type out of hardware range (40-79)'' s)) \<and>
         (40 \<le> ty \<and> ty < 80 \<and> ty \<notin> set (case_labels k) \<longrightarrow>
            hardware_deck_process k now entry s =
              Returned (0, deck_error_detailed entry (DECK_PREFIX_HARDWARE k) ERROR_NOT_IMPLEMENTED
                             ''Hardware operation type not implemented'' s)) \<and>
         (labels_in_documented_ranges k \<and> 60 \<le> ty \<and> ty \<le> 69 \<longrightarrow> ty \<notin> set (case_labels k)) \<and>
         timers (deck_error_detailed entry (DECK_PREFIX_HARDWARE k) c m s) = timers s \<and>
         vga (deck_error_detailed entry (DECK_PREFIX_HARDWARE k) c m s) = vga s \<and>
         keyboard (deck_error_detailed entry (DECK_PREFIX_HARDWARE k) c m s) = keyboard s \<and>
         next_timer_id (deck_error_detailed entry (DECK_PREFIX_HARDWARE k) c m s) = next_timer_id s \<and>
         deck_log (deck_error_detailed entry (DECK_PREFIX_HARDWARE k) c m s) =
           deck_log s @ [Deck_error entry (DECK_PREFIX_HARDWARE k) c m] \<and>
         (\<forall>q. q \<noteq> entry \<longrightarrow>
            entries (deck_error_detailed entry (DECK_PREFIX_HARDWARE k) c m s) q = entries s q)"
  using process_out_of_range[OF assms(1), of s k now] process_default[OF assms(1), of s k now]
    gap_not_a_label[of k ty]
  by (simp add: assms(2) deck_error_detailed_fields)

lemma env0_documented: "labels_in_documented_ranges env0"
  by (simp add: labels_in_documented_ranges_def env0_simps)

lemma type_fixture:
  "entries type_65_state 16 = mk_entry 65 [] EVENT_STATUS_PROCESSING"
  "entries type_200_state 16 = mk_entry 200 [] EVENT_STATUS_PROCESSING"
  "deck_log type_200_state = []" "timers type_200_state = (\<lambda>i. idle_timer)"
  by (simp_all add: type_65_state_def type_200_state_def hw_boot_def)

theorem hardware_deck_process_rejects_unknown_types_witness:
  "hardware_deck_process env0 0 16 type_200_state =
     Returned (0, deck_error_detailed 16 3 ERROR_INVALID_PARAMETER
                    ''Event type out of hardware range (40-79)'' type_200_state) \<and>
   timers (deck_error_detailed 16 3 ERROR_INVALID_PARAMETER
             ''Event type out of hardware range (40-79)'' type_200_state) = timers type_200_state \<and>
   deck_log (deck_error_detailed 16 3 ERROR_INVALID_PARAMETER
               ''Event type out of hardware range (40-79)'' type_200_state) =
     [Deck_error 16 3 ERROR_INVALID_PARAMETER ''Event type out of hardware range (40-79)'']"
proof -
  have h: "(16::nat) \<noteq> 0" "(200 :: u32) = ev_type (event_copy (entries type_200_state 16))"
    by (simp_all add: type_fixture mk_entry_simps)
  from hardware_deck_process_rejects_unknown_types[OF h, of env0 0 ERROR_INVALID_PARAMETER
      "''Event type out of hardware range (40-79)''"]
  show ?thesis by (simp add: env0_simps type_fixture)
qed

text \<open>
  Event type 65 lies in neither documented range, 40 to 59 and 70 to 79, yet the callback
  fails its entry with the not-implemented code, which is not the invalid-parameter code.
\<close>

theorem type_65_not_implemented:
  "\<not> (40 \<le> (65 :: u32) \<and> (65 :: u32) \<le> 59) \<and> \<not> (70 \<le> (65 :: u32) \<and> (65 :: u32) \<le> 79) \<and>
   ev_type (event_copy (entries type_65_state 16)) = 65 \<and>
   hardware_deck_process env0 0 16 type_65_state =
     Returned (0, deck_error_detailed 16 3 ERROR_NOT_IMPLEMENTED
                    ''Hardware operation type not implemented'' type_65_state) \<and>
   ERROR_NOT_IMPLEMENTED \<noteq> ERROR_INVALID_PARAMETER"
proof -
  have "hardware_deck_process env0 0 16 type_65_state =
     Returned (0, deck_error_detailed 16 (DECK_PREFIX_HARDWARE env0) ERROR_NOT_IMPLEMENTED
                    ''Hardware operation type not implemented'' type_65_state)"
    by (rule process_default)
       (simp_all add: type_fixture mk_entry_simps gap_not_a_label[OF env0_documented])
  then show ?thesis by (simp add: env0_simps type_fixture mk_entry_simps)
qed

section \<open>Suspend and resume by a one-shot timer\<close>

lemma asleep_iff:
  "asleep entry i dl s \<longleftrightarrow>
     i < MAX_TIMERS \<and> holds_entry entry (timers s i) \<and>
     expiration (timers s i) = dl \<and> interval (timers s i) = 0 \<and>
     (\<forall>j<MAX_TIMERS. j \<noteq> i \<longrightarrow> \<not> holds_entry entry (timers s j)) \<and>
     state (entries s entry) = EVENT_STATUS_SUSPENDED"
  by (auto simp: asleep_def list_all_iff)

lemma unheld_iff: "unheld entry s \<longleftrightarrow> (\<forall>j<MAX_TIMERS. \<not> holds_entry entry (timers s j))"
  by (auto simp: unheld_def list_all_iff)

lemma sweep_timers:
  "timers (timer_check_expired k now s) j =
     (if j < MAX_TIMERS then swept now (timers s j) else timers s j)"
  by (simp add: timer_check_expired_sweep_to sweep_to_timers)

lemma sweep_entries:
  "entries (timer_check_expired k now s) p =
     (if p \<in> (\<lambda>i. suspended_entry (timers s i)) ` set (waking_slots now s MAX_TIMERS)
      then (entries s p)\<lparr>state := EVENT_STATUS_PROCESSING, slot_free := True\<rparr>
      else entries s p)"
  by (simp add: timer_check_expired_sweep_to sweep_to_entries)

lemma sweep_log:
  "deck_log (timer_check_expired k now s) = deck_log s @ new_calls s (timer_check_expired k now s)"
  by (simp add: new_calls_def timer_check_expired_sweep_to sweep_to_log)

lemma sweep_completions:
  "completions p s (timer_check_expired k now s) =
     length (filter (\<lambda>i. fires now (timers s i) \<and> suspended_entry (timers s i) \<noteq> 0 \<and>
                          suspended_entry (timers s i) = p) [0..<MAX_TIMERS])"
proof -
  have "filter (completes p) (map (\<lambda>i. Deck_complete (suspended_entry (timers s i)) (DECK_PREFIX_HARDWARE k) (Value 0) RESULT_TYPE_NONE) xs)
      = map (\<lambda>i. Deck_complete (suspended_entry (timers s i)) (DECK_PREFIX_HARDWARE k) (Value 0) RESULT_TYPE_NONE)
          (filter (\<lambda>i. suspended_entry (timers s i) = p) xs)" for xs
    by (induction xs) auto
  then show ?thesis
    by (simp add: completions_def sweep_new_calls waking_slots_def conj_ac)
qed

lemma swept_not_holding:
  "\<not> holds_entry p t \<Longrightarrow> p \<noteq> 0 \<Longrightarrow> \<not> holds_entry p (swept now t)"
  by (auto simp: holds_entry_def swept_def)

lemma sweep_unheld:
  assumes "unheld p s" and "p \<noteq> 0"
  shows "unheld p (timer_check_expired k now s)"
    and "completions p s (timer_check_expired k now s) = 0"
    and "entries (timer_check_expired k now s) p = entries s p"
proof -
  have nh: "\<not> holds_entry p (timers s j)" if "j < MAX_TIMERS" for j
    using assms(1) that by (simp add: unheld_iff)
  show "unheld p (timer_check_expired k now s)"
    using nh assms(2) by (simp add: unheld_iff sweep_timers swept_not_holding)
  have none: "\<not> (fires now (timers s j) \<and> suspended_entry (timers s j) \<noteq> 0 \<and> suspended_entry (timers s j) = p)"
    if "j < MAX_TIMERS" for j
    using nh[OF that] by (auto simp: holds_entry_def fires_def)
  then show "completions p s (timer_check_expired k now s) = 0"
    by (simp add: sweep_completions filter_empty_conv)
  have "p \<notin> (\<lambda>i. suspended_entry (timers s i)) ` set (waking_slots now s MAX_TIMERS)"
  proof
    assume "p \<in> (\<lambda>i. suspended_entry (timers s i)) ` set (waking_slots now s MAX_TIMERS)"
    then obtain x where "x < MAX_TIMERS" "fires now (timers s x)" "suspended_entry (timers s x) \<noteq> 0"
      "p = suspended_entry (timers s x)"
      by (auto simp: waking_slots_def)
    with none[of x] show False by simp
  qed
  then show "entries (timer_check_expired k now s) p = entries s p"
    by (simp add: sweep_entries)
qed

lemma sweep_asleep_early:
  assumes "asleep p i dl s" and "p \<noteq> 0" and "\<not> now \<ge> dl"
  shows "asleep p i dl (timer_check_expired k now s)"
    and "completions p s (timer_check_expired k now s) = 0"
proof -
  note a = assms(1)[unfolded asleep_iff]
  have nf: "\<not> fires now (timers s i)" using a assms(3) by (simp add: fires_def)
  have none: "\<not> (fires now (timers s j) \<and> suspended_entry (timers s j) \<noteq> 0 \<and> suspended_entry (timers s j) = p)"
    if "j < MAX_TIMERS" for j
  proof (cases "j = i")
    case True
    then show ?thesis using nf by simp
  next
    case False
    with a that have "\<not> holds_entry p (timers s j)" by simp
    then show ?thesis by (auto simp: holds_entry_def fires_def)
  qed
  then show "completions p s (timer_check_expired k now s) = 0"
    by (simp add: sweep_completions filter_empty_conv)
  have "p \<notin> (\<lambda>i. suspended_entry (timers s i)) ` set (waking_slots now s MAX_TIMERS)"
  proof
    assume "p \<in> (\<lambda>i. suspended_entry (timers s i)) ` set (waking_slots now s MAX_TIMERS)"
    then obtain x where "x < MAX_TIMERS" "fires now (timers s x)" "suspended_entry (timers s x) \<noteq> 0"
      "p = suspended_entry (timers s x)"
      by (auto simp: waking_slots_def)
    with none[of x] show False by simp
  qed
  then have e: "entries (timer_check_expired k now s) p = entries s p"
    by (simp add: sweep_entries)
  have ti: "timers (timer_check_expired k now s) i = timers s i"
    using a nf by (simp add: sweep_timers swept_def)
  show "asleep p i dl (timer_check_expired k now s)"
    unfolding asleep_iff using a assms(2) by (simp add: e ti) (simp add: sweep_timers swept_not_holding)
qed

lemma sweep_asleep_fires:
  assumes "asleep p i dl s" and "p \<noteq> 0" and "now \<ge> dl"
  shows "unheld p (timer_check_expired k now s)"
    and "completions p s (timer_check_expired k now s) = 1"
    and "state (entries (timer_check_expired k now s) p) = EVENT_STATUS_PROCESSING"
    and "\<not> active (timers (timer_check_expired k now s) i)"
proof -
  note a = assms(1)[unfolded asleep_iff]
  have f: "fires now (timers s i)" using a assms(3) by (simp add: fires_def holds_entry_def)
  have li: "suspended_entry (timers s i) = p" using a by (simp add: holds_entry_def)
  have "(fires now (timers s j) \<and> suspended_entry (timers s j) \<noteq> 0 \<and> suspended_entry (timers s j) = p) = (j = i)"
    if "j \<in> set [0..<MAX_TIMERS]" for j
  proof (cases "j = i")
    case True
    then show ?thesis using f li assms(2) by simp
  next
    case False
    with a that have "\<not> holds_entry p (timers s j)" by simp
    with False show ?thesis by (auto simp: holds_entry_def fires_def)
  qed
  then have "filter (\<lambda>j. fires now (timers s j) \<and> suspended_entry (timers s j) \<noteq> 0 \<and>
                          suspended_entry (timers s j) = p) [0..<MAX_TIMERS]
           = filter (\<lambda>j. j = i) [0..<MAX_TIMERS]"
    by (intro filter_cong refl)
  then show "completions p s (timer_check_expired k now s) = 1"
    using a by (simp add: sweep_completions filter_upt_index)
  have "i \<in> set (waking_slots now s MAX_TIMERS)"
    using a f li assms(2) by (simp add: waking_slots_def)
  then have "p \<in> (\<lambda>i. suspended_entry (timers s i)) ` set (waking_slots now s MAX_TIMERS)"
    using li by force
  then show "state (entries (timer_check_expired k now s) p) = EVENT_STATUS_PROCESSING"
    by (simp add: sweep_entries)
  have ti: "timers (timer_check_expired k now s) i = (timers s i)\<lparr>suspended_entry := 0, active := False\<rparr>"
    using a f by (simp add: sweep_timers swept_def)
  then show "\<not> active (timers (timer_check_expired k now s) i)" by simp
  show "unheld p (timer_check_expired k now s)"
    unfolding unheld_iff
  proof (intro allI impI)
    fix j assume j: "j < MAX_TIMERS"
    show "\<not> holds_entry p (timers (timer_check_expired k now s) j)"
    proof (cases "j = i")
      case True
      then show ?thesis using ti by (simp add: holds_entry_def)
    next
      case False
      with a j have "\<not> holds_entry p (timers s j)" by simp
      then show ?thesis using j assms(2) by (simp add: sweep_timers swept_not_holding)
    qed
  qed
qed

lemma run_sweeps_simps:
  "run_sweeps k [] s = s"
  "run_sweeps k (n # ns) s = run_sweeps k ns (timer_check_expired k n s)"
  "run_sweeps k (ms @ ns) s = run_sweeps k ns (run_sweeps k ms s)"
  by (simp_all add: run_sweeps_def)

lemma new_calls_trans:
  assumes "deck_log s' = deck_log s @ new_calls s s'" and "deck_log s'' = deck_log s' @ new_calls s' s''"
  shows "new_calls s s'' = new_calls s s' @ new_calls s' s''"
    and "deck_log s'' = deck_log s @ new_calls s s''"
proof -
  have "deck_log s'' = deck_log s @ (new_calls s s' @ new_calls s' s'')"
    using assms by simp
  then show "new_calls s s'' = new_calls s s' @ new_calls s' s''"
    by (simp add: new_calls_def[of s s''])
  then show "deck_log s'' = deck_log s @ new_calls s s''"
    using assms by simp
qed

lemma completions_trans:
  assumes "deck_log s' = deck_log s @ new_calls s s'" and "deck_log s'' = deck_log s' @ new_calls s' s''"
  shows "completions p s s'' = completions p s s' + completions p s' s''"
  by (simp add: completions_def new_calls_trans(1)[OF assms])

lemma run_sweeps_log:
  "deck_log (run_sweeps k nows s) = deck_log s @ new_calls s (run_sweeps k nows s)"
proof (induction nows arbitrary: s)
  case Nil
  show ?case by (simp add: run_sweeps_simps new_calls_def)
next
  case (Cons n ns)
  from new_calls_trans(2)[OF sweep_log Cons.IH] show ?case
    by (simp add: run_sweeps_simps)
qed

lemma run_sweeps_unheld:
  assumes "unheld p s" and "p \<noteq> 0"
  shows "unheld p (run_sweeps k nows s) \<and> completions p s (run_sweeps k nows s) = 0 \<and>
         entries (run_sweeps k nows s) p = entries s p"
  using assms(1)
proof (induction nows arbitrary: s)
  case Nil
  then show ?case by (simp add: run_sweeps_simps completions_def new_calls_def)
next
  case (Cons n ns)
  note st = sweep_unheld[OF Cons.prems assms(2), of k n]
  note ih = Cons.IH[OF st(1)]
  have "completions p s (run_sweeps k ns (timer_check_expired k n s)) =
        completions p s (timer_check_expired k n s) +
        completions p (timer_check_expired k n s) (run_sweeps k ns (timer_check_expired k n s))"
    by (rule completions_trans[OF sweep_log run_sweeps_log])
  with st ih show ?case by (simp add: run_sweeps_simps)
qed

lemma sleep_makes_asleep:
  assumes "entry \<noteq> 0" and "i < MAX_TIMERS"
    and "\<forall>j<MAX_TIMERS. active (timers s j) \<longrightarrow> suspended_entry (timers s j) \<noteq> entry"
    and "s1 = s\<lparr>timers := (timers s)(i := (timers s i)
                \<lparr>timer_id := tid, owner_workflow_id := w, expiration := dl, interval := 0,
                 suspended_entry := entry, active := True\<rparr>),
             next_timer_id := nid,
             entries := (entries s)(entry := (entries s entry)\<lparr>state := EVENT_STATUS_SUSPENDED\<rparr>)\<rparr>"
  shows "asleep entry i dl s1"
  unfolding asleep_iff using assms(1-3) by (simp add: assms(4) holds_entry_def)

lemma deadline_no_wrap:
  fixes t0 ms :: u64
  assumes "ms \<le> 3600000" and "unat t0 + unat ms * 2400000 < 2 ^ 64"
  shows "unat (t0 + ms * 2400000) = unat t0 + unat ms * 2400000"
proof -
  have "unat ms \<le> 3600000" using assms(1) by (simp add: word_le_nat_alt)
  then have "unat ms * 2400000 < 2 ^ 64" by simp
  then have m: "unat (ms * 2400000) = unat ms * 2400000"
    by (simp add: unat_word_ariths)
  show ?thesis using assms(2) by (simp add: unat_word_ariths m)
qed

lemma sleep_fixture_hyps:
  "(16::nat) \<noteq> 0" "ev_type (event_copy (entries sleep_state 16)) = EVENT_TIMER_SLEEP"
  "labels_distinct env0" "50 = read_u64 (data (event_copy (entries sleep_state 16))) 0"
  "(50 :: u64) \<noteq> 0" "(50 :: u64) \<le> 3600000"
  "0 < MAX_TIMERS" "\<not> active (timers sleep_state 0)" "\<forall>j<0. active (timers sleep_state j)"
  "\<forall>j<MAX_TIMERS. active (timers sleep_state j) \<longrightarrow> suspended_entry (timers sleep_state j) \<noteq> 16"
  by (simp_all add: fixture_entries mk_entry_simps EVENT_TIMER_SLEEP_def env0_labels_distinct
      read_u64_bytes_at fixture_fields idle_timer_def MAX_TIMERS_def)

lemma slept_at_wrap_eq:
  "hw_timer_sleep env0 (- 1) 16 sleep_state = (1, slept_at_wrap)"
  "slept_at_wrap = sleep_state\<lparr>timers := (timers sleep_state)(0 := (timers sleep_state 0)
                \<lparr>timer_id := 1, owner_workflow_id := 1, expiration := - 1 + 50 * 2400000,
                 interval := 0, suspended_entry := 16, active := True\<rparr>),
             next_timer_id := 2,
             entries := (entries sleep_state)(16 := (entries sleep_state 16)\<lparr>state := EVENT_STATUS_SUSPENDED\<rparr>)\<rparr>"
proof -
  have "hw_timer_sleep env0 (- 1) 16 sleep_state = (1, sleep_state\<lparr>timers := (timers sleep_state)(0 := (timers sleep_state 0)
                \<lparr>timer_id := atomic_increment_u64 env0 (next_timer_id sleep_state),
                 owner_workflow_id := (if (16::nat) \<noteq> 0 then user_id (event_copy (entries sleep_state 16)) else 0),
                 expiration := - 1 + 50 * 2400000,
                 interval := 0,
                 suspended_entry := 16,
                 active := True\<rparr>),
             next_timer_id := next_timer_id sleep_state + 1,
             entries := (entries sleep_state)(16 := (entries sleep_state 16)\<lparr>state := EVENT_STATUS_SUSPENDED\<rparr>)\<rparr>)"
    by (rule hw_timer_sleep_success[OF sleep_fixture_hyps(4-9)])
  moreover have "next_timer_id sleep_state = 1" by (simp add: sleep_state_def hw_boot_def)
  ultimately show "slept_at_wrap = sleep_state\<lparr>timers := (timers sleep_state)(0 := (timers sleep_state 0)
                \<lparr>timer_id := 1, owner_workflow_id := 1, expiration := - 1 + 50 * 2400000,
                 interval := 0, suspended_entry := 16, active := True\<rparr>),
             next_timer_id := 2,
             entries := (entries sleep_state)(16 := (entries sleep_state 16)\<lparr>state := EVENT_STATUS_SUSPENDED\<rparr>)\<rparr>"
    by (simp add: slept_at_wrap_def env0_simps fixture_entries mk_entry_simps)
  then show "hw_timer_sleep env0 (- 1) 16 sleep_state = (1, slept_at_wrap)"
    using \<open>hw_timer_sleep env0 (- 1) 16 sleep_state = _\<close> \<open>next_timer_id sleep_state = 1\<close>
    by (simp add: env0_simps fixture_entries mk_entry_simps)
qed

lemma slept_at_wrap_asleep: "asleep 16 0 (- 1 + 50 * 2400000) slept_at_wrap"
  by (rule sleep_makes_asleep[OF sleep_fixture_hyps(1,7,10) slept_at_wrap_eq(2)])

lemma sleep_cancel_fixture:
  "entries sleep_cancel_state 16 = mk_entry 52 [50] EVENT_STATUS_PROCESSING"
  "entries sleep_cancel_state 32 = mk_entry 51 [1] EVENT_STATUS_PROCESSING"
  "timers sleep_cancel_state = (\<lambda>i. idle_timer)" "next_timer_id sleep_cancel_state = 1"
  "deck_log sleep_cancel_state = []"
  by (simp_all add: sleep_cancel_state_def hw_boot_def)

lemma slept_eq:
  "hw_timer_sleep env0 1000 16 sleep_cancel_state = (1, slept)"
  "slept = sleep_cancel_state\<lparr>timers := (timers sleep_cancel_state)(0 := (timers sleep_cancel_state 0)
                \<lparr>timer_id := 1, owner_workflow_id := 1, expiration := 1000 + 50 * 2400000,
                 interval := 0, suspended_entry := 16, active := True\<rparr>),
             next_timer_id := 2,
             entries := (entries sleep_cancel_state)(16 := (entries sleep_cancel_state 16)\<lparr>state := EVENT_STATUS_SUSPENDED\<rparr>)\<rparr>"
proof -
  have h: "50 = read_u64 (data (event_copy (entries sleep_cancel_state 16))) 0"
    "(50 :: u64) \<noteq> 0" "(50 :: u64) \<le> 3600000"
    "0 < MAX_TIMERS" "\<not> active (timers sleep_cancel_state 0)" "\<forall>j<0. active (timers sleep_cancel_state j)"
    by (simp_all add: sleep_cancel_fixture mk_entry_simps read_u64_bytes_at idle_timer_def MAX_TIMERS_def)
  have e: "hw_timer_sleep env0 1000 16 sleep_cancel_state = (1, sleep_cancel_state\<lparr>timers := (timers sleep_cancel_state)(0 := (timers sleep_cancel_state 0)
                \<lparr>timer_id := atomic_increment_u64 env0 (next_timer_id sleep_cancel_state),
                 owner_workflow_id := (if (16::nat) \<noteq> 0 then user_id (event_copy (entries sleep_cancel_state 16)) else 0),
                 expiration := 1000 + 50 * 2400000,
                 interval := 0,
                 suspended_entry := 16,
                 active := True\<rparr>),
             next_timer_id := next_timer_id sleep_cancel_state + 1,
             entries := (entries sleep_cancel_state)(16 := (entries sleep_cancel_state 16)\<lparr>state := EVENT_STATUS_SUSPENDED\<rparr>)\<rparr>)"
    by (rule hw_timer_sleep_success[OF h])
  then show s: "slept = sleep_cancel_state\<lparr>timers := (timers sleep_cancel_state)(0 := (timers sleep_cancel_state 0)
                \<lparr>timer_id := 1, owner_workflow_id := 1, expiration := 1000 + 50 * 2400000,
                 interval := 0, suspended_entry := 16, active := True\<rparr>),
             next_timer_id := 2,
             entries := (entries sleep_cancel_state)(16 := (entries sleep_cancel_state 16)\<lparr>state := EVENT_STATUS_SUSPENDED\<rparr>)\<rparr>"
    by (simp add: slept_def env0_simps sleep_cancel_fixture mk_entry_simps)
  show "hw_timer_sleep env0 1000 16 sleep_cancel_state = (1, slept)"
    using e unfolding s by (simp add: env0_simps sleep_cancel_fixture mk_entry_simps)
qed

lemma slept_fields:
  "entries slept 32 = mk_entry 51 [1] EVENT_STATUS_PROCESSING"
  "state (entries slept 16) = EVENT_STATUS_SUSPENDED"
  "timers slept = (\<lambda>i. idle_timer)(0 := \<lparr>timer_id = 1, owner_workflow_id = 1,
       expiration = 1000 + 50 * 2400000, interval = 0, timer_event_id = 0,
       suspended_entry = 16, active = True\<rparr>)"
  "deck_log slept = []"
  by (simp_all add: slept_eq(2) sleep_cancel_fixture idle_timer_def)

lemma slept_cancelled_eq:
  "hw_timer_cancel env0 32 slept = (1, slept_cancelled)"
  "slept_cancelled = deck_complete 32 3 (Value 0) RESULT_TYPE_NONE
       (slept\<lparr>timers := (timers slept)(0 := (timers slept 0)\<lparr>active := False\<rparr>)\<rparr>)"
proof -
  have "timer_cancel 1 slept = (1, slept\<lparr>timers := (timers slept)(0 := (timers slept 0)\<lparr>active := False\<rparr>)\<rparr>)"
    by (rule timer_cancel_first) (simp_all add: slept_fields MAX_TIMERS_def)
  then have c: "hw_timer_cancel env0 32 slept = (1, deck_complete 32 3 (Value 0) RESULT_TYPE_NONE
       (slept\<lparr>timers := (timers slept)(0 := (timers slept 0)\<lparr>active := False\<rparr>)\<rparr>))"
    by (simp add: hw_timer_cancel_def slept_fields mk_entry_simps read_u64_bytes_at env0_simps)
  then show "slept_cancelled = deck_complete 32 3 (Value 0) RESULT_TYPE_NONE
       (slept\<lparr>timers := (timers slept)(0 := (timers slept 0)\<lparr>active := False\<rparr>)\<rparr>)"
    by (simp add: slept_cancelled_def)
  with c show "hw_timer_cancel env0 32 slept = (1, slept_cancelled)" by simp
qed

lemma slept_cancelled_unheld: "unheld 16 slept_cancelled"
  by (simp add: unheld_iff slept_cancelled_eq(2) deck_complete_fields slept_fields
      holds_entry_def idle_timer_def)

text \<open>
  Two ways in which the entry of a timer sleep is not woken once at or after its delay.
  Created at clock reading \<open>2^64 - 1\<close>, the deadline wraps around and a sweep at that same
  reading wakes the entry.  Created at clock 1000 and cancelled by its identifier, the
  timer never fires: after a sweep long past the deadline the entry is still SUSPENDED.
\<close>

theorem timer_sleep_woken_early_or_never:
  "hardware_deck_process env0 (- 1) 16 sleep_state = Returned (1, slept_at_wrap) \<and>
   completions 16 slept_at_wrap (timer_check_expired env0 (- 1) slept_at_wrap) = 1 \<and>
   hardware_deck_process env0 1000 16 sleep_cancel_state = Returned (1, slept) \<and>
   state (entries slept 16) = EVENT_STATUS_SUSPENDED \<and>
   hardware_deck_process env0 2000 32 slept = Returned (1, slept_cancelled) \<and>
   completions 16 slept (run_sweeps env0 [3000, 1000000000000000] slept_cancelled) = 0 \<and>
   state (entries (run_sweeps env0 [3000, 1000000000000000] slept_cancelled) 16) = EVENT_STATUS_SUSPENDED"
proof -
  have a1: "hardware_deck_process env0 (- 1) 16 sleep_state = Returned (1, slept_at_wrap)"
    using process_timer_sleep[OF sleep_fixture_hyps(1-3), of "- 1"] by (simp add: slept_at_wrap_eq(1))
  have a2: "completions 16 slept_at_wrap (timer_check_expired env0 (- 1) slept_at_wrap) = 1"
    by (rule sweep_asleep_fires(2)[OF slept_at_wrap_asleep]) simp_all
  have b1: "hardware_deck_process env0 1000 16 sleep_cancel_state = Returned (1, slept)"
    using process_timer_sleep[of 16 sleep_cancel_state env0 1000]
    by (simp add: slept_eq(1) sleep_cancel_fixture mk_entry_simps EVENT_TIMER_SLEEP_def env0_labels_distinct)
  have b2: "hardware_deck_process env0 2000 32 slept = Returned (1, slept_cancelled)"
    using process_timer_cancel[of 32 slept env0 2000]
    by (simp add: slept_cancelled_eq(1) slept_fields mk_entry_simps env0_simps env0_labels_distinct)
  note u = run_sweeps_unheld[OF slept_cancelled_unheld, of env0 "[3000, 1000000000000000]"]
  have l: "deck_log slept_cancelled = deck_log slept @ new_calls slept slept_cancelled"
    by (simp add: new_calls_def slept_cancelled_eq(2) deck_complete_fields slept_fields)
  have c0: "completions 16 slept slept_cancelled = 0"
    by (simp add: completions_def new_calls_def slept_cancelled_eq(2) deck_complete_fields slept_fields)
  have "completions 16 slept (run_sweeps env0 [3000, 1000000000000000] slept_cancelled) =
        completions 16 slept slept_cancelled +
        completions 16 slept_cancelled (run_sweeps env0 [3000, 1000000000000000] slept_cancelled)"
    by (rule completions_trans[OF l run_sweeps_log])
  with u c0 have b3: "completions 16 slept (run_sweeps env0 [3000, 1000000000000000] slept_cancelled) = 0"
    by simp
  have "state (entries slept_cancelled 16) = EVENT_STATUS_SUSPENDED"
    by (simp add: slept_cancelled_eq(2) deck_complete_fields slept_fields)
  with u have b4: "state (entries (run_sweeps env0 [3000, 1000000000000000] slept_cancelled) 16) = EVENT_STATUS_SUSPENDED"
    by simp
  show ?thesis using a1 a2 b1 b2 b3 b4 slept_fields(2) by simp
qed

section \<open>Suspend and resume: runs of sweeps and calls\<close>

lemma frame_refl: "frame q s s"
  by (simp add: frame_def)

lemma frame_complete:
  "timers s1 = timers s \<Longrightarrow> entries s1 = entries s \<Longrightarrow> frame q s (deck_complete q p r t s1)"
  by (simp add: frame_def deck_complete_def)

lemma frame_error:
  "timers s1 = timers s \<Longrightarrow> entries s1 = entries s \<Longrightarrow> frame q s (deck_error_detailed q p c m s1)"
  by (simp add: frame_def deck_error_detailed_def)

lemma frame_dev_open: "frame q s (snd (hw_dev_open k q s))"
  by (simp add: hw_dev_open_def Let_def frame_complete frame_error)

lemma frame_dev_ioctl: "frame q s (snd (hw_dev_ioctl k q s))"
  by (simp add: hw_dev_ioctl_def Let_def frame_complete frame_error)

lemma frame_dev_read: "frame q s (snd (hw_dev_read k q s))"
  by (simp add: hw_dev_read_def Let_def frame_complete frame_error)

lemma frame_dev_write: "frame q s (snd (hw_dev_write k q s))"
  by (simp add: hw_dev_write_def Let_def frame_complete frame_error)

lemma frame_timer_getticks: "frame q s (snd (hw_timer_getticks k now q s))"
  by (simp add: hw_timer_getticks_def frame_complete)

lemma frame_console_write: "frame q s (snd (hw_console_write k q s))"
  by (simp add: hw_console_write_def Let_def frame_complete frame_error)

lemma frame_console_write_attr: "frame q s (snd (hw_console_write_attr k q s))"
  by (simp add: hw_console_write_attr_def Let_def frame_complete frame_error)

lemma frame_console_read_char: "frame q s (snd (hw_console_read_char k q s))"
  by (simp add: hw_console_read_char_def frame_complete split: list.splits)

lemma frame_console_clear: "frame q s (snd (hw_console_clear k q s))"
  by (simp add: hw_console_clear_def frame_complete)

lemma frame_console_set_pos: "frame q s (snd (hw_console_set_pos k q s))"
  by (simp add: hw_console_set_pos_def Let_def frame_complete)

lemma frame_console_get_pos: "frame q s (snd (hw_console_get_pos k q s))"
  by (simp add: hw_console_get_pos_def Let_def frame_complete)

lemma frame_console_read_line:
  "hw_console_read_line k q s = Returned (r, s') \<Longrightarrow> frame q s s'"
  by (auto simp: hw_console_read_line_def Let_def frame_complete frame_error
      split: option.splits outcome.splits if_splits)

lemma frame_timer_create: "frame q s (snd (hw_timer_create k now q s))"
proof -
  obtain r s1 where tc: "timer_create k now (read_u64 (data (event_copy (entries s q))) 0)
      (read_u64 (data (event_copy (entries s q))) 8) 0 s = (r, s1)" by fastforce
  have "frame q s (deck_complete q p res t s1) \<and> frame q s (deck_error_detailed q p c m s1)" for p res t c m
  proof (cases r)
    case None
    with timer_create_None[OF tc[unfolded None]] show ?thesis
      by (simp add: frame_complete frame_error)
  next
    case (Some i)
    note c = timer_create_Some[OF tc[unfolded Some]]
    show ?thesis
      by (simp add: frame_def deck_complete_def deck_error_detailed_def c(4) holds_entry_def)
  qed
  then show ?thesis using tc
    by (auto simp: hw_timer_create_def Let_def frame_error split: option.splits prod.splits)
qed

lemma frame_timer_sleep: "frame q s (snd (hw_timer_sleep k now q s))"
proof -
  obtain r s1 where tc: "timer_create k now (read_u64 (data (event_copy (entries s q))) 0) 0 q s = (r, s1)"
    by fastforce
  show ?thesis
  proof (cases r)
    case None
    with timer_create_None[OF tc[unfolded None]] tc show ?thesis
      by (auto simp: hw_timer_sleep_def Let_def frame_error)
  next
    case (Some i)
    note c = timer_create_Some[OF tc[unfolded Some]]
    have "frame q s (s1\<lparr>entries := (entries s1)(q := (entries s1 q)\<lparr>state := EVENT_STATUS_SUSPENDED\<rparr>)\<rparr>)"
      by (simp add: frame_def c(4) holds_entry_def)
    then show ?thesis using tc Some
      by (auto simp: hw_timer_sleep_def Let_def frame_error)
  qed
qed

lemma timer_cancel_cases:
  "timer_cancel tid s = (0, s) \<or>
   (\<exists>i<MAX_TIMERS. active (timers s i) \<and> timer_id (timers s i) = tid \<and>
      timer_cancel tid s = (1, s\<lparr>timers := (timers s)(i := (timers s i)\<lparr>active := False\<rparr>)\<rparr>))"
  by (auto simp: timer_cancel_def find_upt_Some split: option.splits)

lemma frame_timer_cancel: "frame q s (snd (hw_timer_cancel k q s))"
proof -
  let ?tid = "read_u64 (data (event_copy (entries s q))) 0"
  from timer_cancel_cases[of ?tid s] show ?thesis
  proof
    assume "timer_cancel ?tid s = (0, s)"
    then show ?thesis by (simp add: hw_timer_cancel_def Let_def frame_error)
  next
    assume "\<exists>i<MAX_TIMERS. active (timers s i) \<and> timer_id (timers s i) = ?tid \<and>
      timer_cancel ?tid s = (1, s\<lparr>timers := (timers s)(i := (timers s i)\<lparr>active := False\<rparr>)\<rparr>)"
    then obtain i where c: "timer_cancel ?tid s = (1, s\<lparr>timers := (timers s)(i := (timers s i)\<lparr>active := False\<rparr>)\<rparr>)"
      by blast
    have "frame q s (deck_complete q p r t (s\<lparr>timers := (timers s)(i := (timers s i)\<lparr>active := False\<rparr>)\<rparr>))" for p r t
      by (simp add: frame_def deck_complete_def holds_entry_def)
    then show ?thesis using c by (simp add: hw_timer_cancel_def Let_def frame_error)
  qed
qed

lemmas handler_frames =
  frame_timer_create frame_timer_cancel frame_timer_sleep frame_timer_getticks
  frame_dev_open frame_dev_ioctl frame_dev_read frame_dev_write
  frame_console_write frame_console_write_attr frame_console_read_char
  frame_console_clear frame_console_set_pos frame_console_get_pos

lemma frame_of_snd: "frame q s (snd x) \<Longrightarrow> x = (r, s') \<Longrightarrow> frame q s s'"
  by auto

lemma process_frame:
  assumes "hardware_deck_process k now q s = Returned (r, s')"
  shows "frame q s s'"
  using assms unfolding hardware_deck_process_def Let_def
  by (simp split: if_splits)
     (auto intro: frame_of_snd[OF handler_frames(1)] frame_of_snd[OF handler_frames(2)]
        frame_of_snd[OF handler_frames(3)] frame_of_snd[OF handler_frames(4)]
        frame_of_snd[OF handler_frames(5)] frame_of_snd[OF handler_frames(6)]
        frame_of_snd[OF handler_frames(7)] frame_of_snd[OF handler_frames(8)]
        frame_of_snd[OF handler_frames(9)] frame_of_snd[OF handler_frames(10)]
        frame_of_snd[OF handler_frames(11)] frame_of_snd[OF handler_frames(12)]
        frame_of_snd[OF handler_frames(13)] frame_of_snd[OF handler_frames(14)]
        frame_console_read_line frame_error frame_refl)

lemma timer_create_keeps_active:
  assumes "timer_create k now d iv e s = (r, s')" and "active (timers s i)"
  shows "timers s' i = timers s i"
proof (cases r)
  case None
  with timer_create_None[OF assms(1)[unfolded None]] show ?thesis by simp
next
  case (Some j)
  note c = timer_create_Some[OF assms(1)[unfolded Some]]
  from c(2) assms(2) have "j \<noteq> i" by auto
  then show ?thesis by (simp add: c(4))
qed

lemma keeps_timer_create:
  "active (timers s i) \<Longrightarrow> timers (snd (hw_timer_create k now q s)) i = timers s i"
  by (auto simp: hw_timer_create_def Let_def deck_complete_fields deck_error_detailed_fields
      dest: timer_create_keeps_active split: prod.splits option.splits)

lemma keeps_timer_sleep:
  "active (timers s i) \<Longrightarrow> timers (snd (hw_timer_sleep k now q s)) i = timers s i"
  by (auto simp: hw_timer_sleep_def Let_def deck_complete_fields deck_error_detailed_fields
      dest: timer_create_keeps_active split: prod.splits option.splits)

lemma keeps_timer_cancel:
  assumes "read_u64 (data (event_copy (entries s q))) 0 \<noteq> timer_id (timers s i)"
  shows "timers (snd (hw_timer_cancel k q s)) i = timers s i"
proof -
  let ?tid = "read_u64 (data (event_copy (entries s q))) 0"
  from timer_cancel_cases[of ?tid s] show ?thesis
  proof
    assume "timer_cancel ?tid s = (0, s)"
    then show ?thesis
      by (simp add: hw_timer_cancel_def Let_def deck_error_detailed_fields)
  next
    assume "\<exists>i<MAX_TIMERS. active (timers s i) \<and> timer_id (timers s i) = ?tid \<and>
      timer_cancel ?tid s = (1, s\<lparr>timers := (timers s)(i := (timers s i)\<lparr>active := False\<rparr>)\<rparr>)"
    then obtain j where c: "timer_id (timers s j) = ?tid"
      "timer_cancel ?tid s = (1, s\<lparr>timers := (timers s)(j := (timers s j)\<lparr>active := False\<rparr>)\<rparr>)"
      by blast
    with assms have "j \<noteq> i" by auto
    then show ?thesis using c(2)
      by (simp add: hw_timer_cancel_def Let_def deck_complete_fields deck_error_detailed_fields)
  qed
qed

lemma keeps_simple:
  "timers (snd (hw_timer_getticks k now q s)) = timers s"
  "timers (snd (hw_dev_open k q s)) = timers s"
  "timers (snd (hw_dev_ioctl k q s)) = timers s"
  "timers (snd (hw_dev_read k q s)) = timers s"
  "timers (snd (hw_dev_write k q s)) = timers s"
  "timers (snd (hw_console_write k q s)) = timers s"
  "timers (snd (hw_console_write_attr k q s)) = timers s"
  "timers (snd (hw_console_read_char k q s)) = timers s"
  "timers (snd (hw_console_clear k q s)) = timers s"
  "timers (snd (hw_console_set_pos k q s)) = timers s"
  "timers (snd (hw_console_get_pos k q s)) = timers s"
  by (simp_all add: hw_timer_getticks_def hw_dev_open_def hw_dev_ioctl_def hw_dev_read_def
      hw_dev_write_def hw_console_write_def hw_console_write_attr_def hw_console_read_char_def
      hw_console_clear_def hw_console_set_pos_def hw_console_get_pos_def Let_def
      deck_complete_fields deck_error_detailed_fields split: list.splits)

lemma keeps_console_read_line:
  "hw_console_read_line k q s = Returned (r, s') \<Longrightarrow> timers s' = timers s"
  by (auto simp: hw_console_read_line_def Let_def deck_complete_fields deck_error_detailed_fields
      split: option.splits outcome.splits if_splits)

lemma timers_of_snd: "timers (snd x) i = t \<Longrightarrow> x = (r, s') \<Longrightarrow> timers s' i = t"
  by auto

lemma process_keeps_slot:
  assumes "hardware_deck_process k now q s = Returned (r, s')"
    and "active (timers s i)" and "\<not> cancels k q s (timer_id (timers s i))"
  shows "timers s' i = timers s i"
proof -
  have c: "hw_timer_cancel k q s = (r, s') \<Longrightarrow> ev_type (event_copy (entries s q)) = EVENT_TIMER_CANCEL k \<Longrightarrow>
           timers s' i = timers s i"
    using assms(3) keeps_timer_cancel[of s q i k] by (auto simp: cancels_def)
  have simple: "timers (snd x) = timers s \<Longrightarrow> x = (r, s') \<Longrightarrow> timers s' i = timers s i" for x
    by auto
  show ?thesis
    using assms(1) unfolding hardware_deck_process_def Let_def
    by (simp split: if_splits)
       (auto intro: c timers_of_snd[OF keeps_timer_create[OF assms(2)]]
          timers_of_snd[OF keeps_timer_sleep[OF assms(2)]]
          simple[OF keeps_simple(1)] simple[OF keeps_simple(2)] simple[OF keeps_simple(3)]
          simple[OF keeps_simple(4)] simple[OF keeps_simple(5)] simple[OF keeps_simple(6)]
          simple[OF keeps_simple(7)] simple[OF keeps_simple(8)] simple[OF keeps_simple(9)]
          simple[OF keeps_simple(10)] simple[OF keeps_simple(11)]
          simp: deck_error_detailed_fields dest: keeps_console_read_line)
qed

lemma filters_le_length:
  "length (filter (completes q) xs) + length (filter (fails q) xs) \<le> length xs"
proof (induction xs)
  case Nil
  show ?case by simp
next
  case (Cons c cs)
  then show ?case by (cases c) auto
qed

lemma all_calls_on_entry:
  "length xs = length (filter (completes q) xs) + length (filter (fails q) xs) \<Longrightarrow>
   e \<noteq> q \<Longrightarrow> filter (completes e) xs = []"
proof (induction xs)
  case Nil
  show ?case by simp
next
  case (Cons c cs)
  note le = filters_le_length[of q cs]
  show ?case
  proof (cases c)
    case (Deck_complete e' p r t)
    with Cons.prems le have "e' = q" by (auto split: if_splits)
    moreover from Cons.prems le Deck_complete
    have "length cs = length (filter (completes q) cs) + length (filter (fails q) cs)"
      by (auto split: if_splits)
    ultimately show ?thesis using Cons.IH Cons.prems(2) Deck_complete by simp
  next
    case (Deck_error e' p c' m)
    with Cons.prems le
    have "length cs = length (filter (completes q) cs) + length (filter (fails q) cs)"
      by (auto split: if_splits)
    then show ?thesis using Cons.IH Cons.prems(2) Deck_error by simp
  qed
qed

lemma call_other_entry:
  assumes "hardware_deck_process k now q s = Returned (r, s')" and "q \<noteq> e" and "e \<noteq> 0"
  shows "deck_log s' = deck_log s @ new_calls s s'"
    and "completions e s s' = 0"
    and "entries s' e = entries s e"
    and "\<forall>p. event_copy (entries s' p) = event_copy (entries s p)"
    and "\<forall>j. holds_entry e (timers s' j) \<longrightarrow> holds_entry e (timers s j)"
proof -
  note f = process_frame[OF assms(1), unfolded frame_def]
  show "entries s' e = entries s e" using f assms(2) by simp
  show "\<forall>p. event_copy (entries s' p) = event_copy (entries s p)" using f by simp
  show "\<forall>j. holds_entry e (timers s' j) \<longrightarrow> holds_entry e (timers s j)"
    using f assms(2,3) by blast
  have "deck_log s' = deck_log s @ new_calls s s' \<and> completions e s s' = 0"
  proof (cases "q = 0")
    case True
    with assms(1) have "s' = s" by (simp add: hardware_deck_process_def)
    then show ?thesis by (simp add: new_calls_def completions_def)
  next
    case False
    from process_returned_contract[OF False assms(1)]
    have c: "deck_log s' = deck_log s @ new_calls s s'"
      "length (new_calls s s') = completions q s s' + failures q s s'"
      by (simp_all add: deck_contract_def)
    from all_calls_on_entry[OF c(2)[unfolded completions_def failures_def], of e] assms(2)
    show ?thesis using c(1) by (simp add: completions_def)
  qed
  then show "deck_log s' = deck_log s @ new_calls s s'" "completions e s s' = 0" by simp_all
qed

lemma sweep_event_copy:
  "event_copy (entries (timer_check_expired k now s) p) = event_copy (entries s p)"
  by (simp add: timer_check_expired_sweep_to sweep_to_event_copy)

lemma sweep_early_slot:
  assumes "asleep p i dl s" and "\<not> now \<ge> dl"
  shows "timers (timer_check_expired k now s) i = timers s i"
  using assms by (simp add: asleep_iff sweep_timers swept_def fires_def)

lemma cancels_same_events: "same_events s0 s \<Longrightarrow> cancels k q s tid = cancels k q s0 tid"
  by (simp add: cancels_def same_events_def)

lemma run_steps_asleep:
  assumes "e \<noteq> 0"
  shows "asleep e i dl s \<Longrightarrow> timer_id (timers s i) = tid \<Longrightarrow> same_events s0 s \<Longrightarrow>
     list_all (early_step k e s0 tid (unat dl)) steps \<Longrightarrow> run_steps k steps s = Some s2 \<Longrightarrow>
     asleep e i dl s2 \<and> completions e s s2 = 0 \<and> deck_log s2 = deck_log s @ new_calls s s2"
proof (induction steps arbitrary: s)
  case Nil
  then show ?case by (simp add: completions_def new_calls_def)
next
  case (Cons x xs)
  show ?case
  proof (cases x)
    case (Sweep now)
    let ?s' = "timer_check_expired k now s"
    have early: "\<not> now \<ge> dl" using Cons.prems(4) Sweep by (simp add: word_le_nat_alt not_le)
    note st = sweep_asleep_early[OF Cons.prems(1) assms early, of k]
    have tid: "timer_id (timers ?s' i) = tid"
      using sweep_early_slot[OF Cons.prems(1) early, of k] Cons.prems(2) by simp
    have se: "same_events s0 ?s'"
      using Cons.prems(3) by (simp add: same_events_def sweep_event_copy)
    have "list_all (early_step k e s0 tid (unat dl)) xs" "run_steps k xs ?s' = Some s2"
      using Cons.prems(4,5) Sweep by simp_all
    note ih = Cons.IH[OF st(1) tid se this]
    have "completions e s s2 = completions e s ?s' + completions e ?s' s2"
      by (rule completions_trans[OF sweep_log]) (use ih in simp)
    moreover have "deck_log s2 = deck_log s @ new_calls s s2"
      by (rule new_calls_trans(2)[OF sweep_log]) (use ih in simp)
    ultimately show ?thesis using ih st(2) by simp
  next
    case (Call now q)
    from Cons.prems(5) Call obtain r s' where
      run: "hardware_deck_process k now q s = Returned (r, s')" and rest: "run_steps k xs s' = Some s2"
      by (auto split: outcome.splits)
    have q: "q \<noteq> e" and nc: "\<not> cancels k q s tid"
      using Cons.prems(3,4) Call by (simp_all add: cancels_same_events)
    note a = Cons.prems(1)[unfolded asleep_iff]
    note c = call_other_entry[OF run q assms]
    have act: "active (timers s i)" using a by (simp add: holds_entry_def)
    have slot: "timers s' i = timers s i"
      using process_keeps_slot[OF run act] nc Cons.prems(2) by simp
    have as': "asleep e i dl s'"
      unfolding asleep_iff using a c(3) c(5) by (auto simp: slot)
    have se: "same_events s0 s'"
      using Cons.prems(3) c(4) by (simp add: same_events_def)
    have "list_all (early_step k e s0 tid (unat dl)) xs" using Cons.prems(4) by simp
    note ih = Cons.IH[OF as' _ se this rest]
    have tid: "timer_id (timers s' i) = tid" using slot Cons.prems(2) by simp
    have "completions e s s2 = completions e s s' + completions e s' s2"
      by (rule completions_trans[OF c(1)]) (use ih[OF tid] in simp)
    moreover have "deck_log s2 = deck_log s @ new_calls s s2"
      by (rule new_calls_trans(2)[OF c(1)]) (use ih[OF tid] in simp)
    ultimately show ?thesis using ih[OF tid] c(2) by simp
  qed
qed

lemma run_steps_unheld:
  assumes "e \<noteq> 0"
  shows "unheld e s \<Longrightarrow> list_all (other_step e) steps \<Longrightarrow> run_steps k steps s = Some s4 \<Longrightarrow>
     unheld e s4 \<and> completions e s s4 = 0 \<and> entries s4 e = entries s e \<and>
     deck_log s4 = deck_log s @ new_calls s s4"
proof (induction steps arbitrary: s)
  case Nil
  then show ?case by (simp add: completions_def new_calls_def)
next
  case (Cons x xs)
  show ?case
  proof (cases x)
    case (Sweep now)
    let ?s' = "timer_check_expired k now s"
    note st = sweep_unheld[OF Cons.prems(1) assms, of k now]
    have "list_all (other_step e) xs" "run_steps k xs ?s' = Some s4"
      using Cons.prems(2,3) Sweep by simp_all
    note ih = Cons.IH[OF st(1) this]
    have "completions e s s4 = completions e s ?s' + completions e ?s' s4"
      by (rule completions_trans[OF sweep_log]) (use ih in simp)
    moreover have "deck_log s4 = deck_log s @ new_calls s s4"
      by (rule new_calls_trans(2)[OF sweep_log]) (use ih in simp)
    ultimately show ?thesis using ih st by simp
  next
    case (Call now q)
    from Cons.prems(3) Call obtain r s' where
      run: "hardware_deck_process k now q s = Returned (r, s')" and rest: "run_steps k xs s' = Some s4"
      by (auto split: outcome.splits)
    have q: "q \<noteq> e" using Cons.prems(2) Call by simp
    note c = call_other_entry[OF run q assms]
    have u': "unheld e s'" using Cons.prems(1) c(5) by (auto simp: unheld_iff)
    have "list_all (other_step e) xs" using Cons.prems(2) by simp
    note ih = Cons.IH[OF u' this rest]
    have "completions e s s4 = completions e s s' + completions e s' s4"
      by (rule completions_trans[OF c(1)]) (use ih in simp)
    moreover have "deck_log s4 = deck_log s @ new_calls s s4"
      by (rule new_calls_trans(2)[OF c(1)]) (use ih in simp)
    ultimately show ?thesis using ih c(2,3) by simp
  qed
qed

lemma run_steps_returns:
  "same_events s0 s \<Longrightarrow> list_all (never_waits s0) steps \<Longrightarrow>
   \<exists>s'. run_steps k steps s = Some s' \<and> same_events s0 s'"
proof (induction steps arbitrary: s)
  case Nil
  then show ?case by simp
next
  case (Cons x xs)
  show ?case
  proof (cases x)
    case (Sweep now)
    have "same_events s0 (timer_check_expired k now s)"
      using Cons.prems(1) by (simp add: same_events_def sweep_event_copy)
    from Cons.IH[OF this] Cons.prems(2) Sweep show ?thesis by simp
  next
    case (Call now q)
    have ty: "ev_type (event_copy (entries s q)) \<noteq> EVENT_CONSOLE_READ_LINE"
      using Cons.prems Call by (simp add: same_events_def)
    show ?thesis
    proof (cases "hardware_deck_process k now q s")
      case (Returned x)
      obtain r s' where x: "x = (r, s')" by (cases x) auto
      from process_frame[OF Returned[unfolded x]] Cons.prems(1)
      have "same_events s0 s'" by (simp add: frame_def same_events_def)
      from Cons.IH[OF this] Cons.prems(2) show ?thesis using Call Returned x by simp
    next
      case Blocked
      from process_blocked[OF this] ty show ?thesis by simp
    next
      case Out_of_bounds
      then show ?thesis using process_not_out_of_bounds by blast
    qed
  qed
qed

text \<open>
  Claim C2 (amended).  A timer-sleep event of \<open>ms\<close> milliseconds, \<open>1 \<le> ms \<le> 3600000\<close>, is
  processed at clock reading \<open>t0\<close> on a table with a free slot, no active slot holding the
  entry already, and \<open>t0 + ms * 2400000 < 2^64\<close>.  The entry is left SUSPENDED.  Then the
  deck runs: sweeps that read the clock below \<open>t0 + ms * 2400000\<close>, and calls of the
  process callback on other entries, none of which cancels the timer.  Whenever that run
  returns, the entry has not been woken and is still SUSPENDED.  The first sweep whose
  reading is at least \<open>t0 + ms * 2400000\<close> wakes it (one completion, state PROCESSING) and
  deactivates the slot; and whatever sweeps and calls on other entries follow, the entry
  has been woken once.
\<close>

theorem timer_sleep_wakes_exactly_once:
  assumes "entry \<noteq> 0"
    and "ev_type (event_copy (entries s entry)) = EVENT_TIMER_SLEEP"
    and "labels_distinct k"
    and "ms = read_u64 (data (event_copy (entries s entry))) 0"
    and "ms \<noteq> 0" and "ms \<le> 3600000"
    and "i < MAX_TIMERS" and "\<not> active (timers s i)" and "\<forall>j<i. active (timers s j)"
    and "\<forall>j<MAX_TIMERS. active (timers s j) \<longrightarrow> suspended_entry (timers s j) \<noteq> entry"
    and "unat t0 + unat ms * 2400000 < 2 ^ 64"
    and "list_all (early_step k entry s (atomic_increment_u64 k (next_timer_id s))
                     (unat t0 + unat ms * 2400000)) before"
    and "unat t0 + unat ms * 2400000 \<le> unat now"
    and "list_all (other_step entry) after"
  shows "\<exists>s1. hardware_deck_process k t0 entry s = Returned (1, s1) \<and>
           state (entries s1 entry) = EVENT_STATUS_SUSPENDED \<and>
           (\<forall>s2. run_steps k before s1 = Some s2 \<longrightarrow>
              completions entry s1 s2 = 0 \<and>
              state (entries s2 entry) = EVENT_STATUS_SUSPENDED \<and>
              completions entry s2 (timer_check_expired k now s2) = 1 \<and>
              state (entries (timer_check_expired k now s2) entry) = EVENT_STATUS_PROCESSING \<and>
              \<not> active (timers (timer_check_expired k now s2) i) \<and>
              (\<forall>s4. run_steps k after (timer_check_expired k now s2) = Some s4 \<longrightarrow>
                 completions entry s1 s4 = 1 \<and>
                 state (entries s4 entry) = EVENT_STATUS_PROCESSING))"
proof -
  define dl where "dl = t0 + ms * 2400000"
  define tid where "tid = atomic_increment_u64 k (next_timer_id s)"
  define s1 where "s1 = s\<lparr>timers := (timers s)(i := (timers s i)
                \<lparr>timer_id := tid,
                 owner_workflow_id := (if entry \<noteq> 0 then user_id (event_copy (entries s entry)) else 0),
                 expiration := dl,
                 interval := 0,
                 suspended_entry := entry,
                 active := True\<rparr>),
             next_timer_id := next_timer_id s + 1,
             entries := (entries s)(entry := (entries s entry)\<lparr>state := EVENT_STATUS_SUSPENDED\<rparr>)\<rparr>"
  have run: "hardware_deck_process k t0 entry s = Returned (1, s1)"
    using process_timer_sleep[OF assms(1-3), of t0]
      hw_timer_sleep_success[OF assms(4-9), of k t0]
    by (simp add: s1_def dl_def tid_def)
  have sl: "asleep entry i dl s1"
    by (rule sleep_makes_asleep[OF assms(1,7,10) s1_def])
  have id: "timer_id (timers s1 i) = tid" by (simp add: s1_def)
  have se: "same_events s s1" by (simp add: same_events_def s1_def)
  have udl: "unat dl = unat t0 + unat ms * 2400000"
    unfolding dl_def by (rule deadline_no_wrap[OF assms(6,11)])
  have late: "now \<ge> dl" using assms(13) by (simp add: word_le_nat_alt udl)
  have early: "list_all (early_step k entry s tid (unat dl)) before"
    using assms(12) by (simp add: udl tid_def)
  have main: "completions entry s1 s2 = 0 \<and>
              state (entries s2 entry) = EVENT_STATUS_SUSPENDED \<and>
              completions entry s2 (timer_check_expired k now s2) = 1 \<and>
              state (entries (timer_check_expired k now s2) entry) = EVENT_STATUS_PROCESSING \<and>
              \<not> active (timers (timer_check_expired k now s2) i) \<and>
              (\<forall>s4. run_steps k after (timer_check_expired k now s2) = Some s4 \<longrightarrow>
                 completions entry s1 s4 = 1 \<and>
                 state (entries s4 entry) = EVENT_STATUS_PROCESSING)"
    if r2: "run_steps k before s1 = Some s2" for s2
  proof -
    let ?s3 = "timer_check_expired k now s2"
    note b = run_steps_asleep[OF assms(1) sl id se early r2]
    note f = sweep_asleep_fires[OF b[THEN conjunct1] assms(1) late, of k]
    have l13: "deck_log ?s3 = deck_log s1 @ new_calls s1 ?s3"
      by (rule new_calls_trans(2)[OF _ sweep_log]) (use b in simp)
    have c13: "completions entry s1 ?s3 = 1"
      using completions_trans[OF _ sweep_log[of k now s2], of s1 entry] b f(2) by simp
    have after: "completions entry s1 s4 = 1 \<and> state (entries s4 entry) = EVENT_STATUS_PROCESSING"
      if r4: "run_steps k after ?s3 = Some s4" for s4
    proof -
      note u = run_steps_unheld[OF assms(1) f(1) assms(14) r4]
      have "completions entry s1 s4 = completions entry s1 ?s3 + completions entry ?s3 s4"
        by (rule completions_trans[OF l13]) (use u in simp)
      with u c13 f(3) show ?thesis by simp
    qed
    have "state (entries s2 entry) = EVENT_STATUS_SUSPENDED" using b by (simp add: asleep_iff)
    with b f after show ?thesis by blast
  qed
  have "state (entries s1 entry) = EVENT_STATUS_SUSPENDED" by (simp add: s1_def)
  with run main show ?thesis by blast
qed

lemma sleep_state_other_entry: "entries sleep_state 48 = mk_entry 0 [] EVENT_STATUS_PENDING"
  by (simp add: sleep_state_def hw_boot_def)

theorem timer_sleep_wakes_exactly_once_witness:
  "\<exists>s1 s2 s4.
     hardware_deck_process env0 1000 16 sleep_state = Returned (1, s1) \<and>
     state (entries s1 16) = EVENT_STATUS_SUSPENDED \<and>
     run_steps env0 [Sweep 1000, Call 1500 48, Sweep 60000000] s1 = Some s2 \<and>
     completions 16 s1 s2 = 0 \<and>
     state (entries s2 16) = EVENT_STATUS_SUSPENDED \<and>
     completions 16 s2 (timer_check_expired env0 120001000 s2) = 1 \<and>
     state (entries (timer_check_expired env0 120001000 s2) 16) = EVENT_STATUS_PROCESSING \<and>
     \<not> active (timers (timer_check_expired env0 120001000 s2) 0) \<and>
     run_steps env0 [Sweep 120001001, Call 130000000 48, Sweep 500000000]
       (timer_check_expired env0 120001000 s2) = Some s4 \<and>
     completions 16 s1 s4 = 1 \<and>
     state (entries s4 16) = EVENT_STATUS_PROCESSING"
proof -
  let ?before = "[Sweep 1000, Call 1500 48, Sweep 60000000]"
  let ?after = "[Sweep 120001001, Call 130000000 48, Sweep 500000000]"
  have t: "unat (1000 :: u64) + unat (50 :: u64) * 2400000 < 2 ^ 64"
    "list_all (early_step env0 16 sleep_state (atomic_increment_u64 env0 (next_timer_id sleep_state))
        (unat (1000 :: u64) + unat (50 :: u64) * 2400000)) ?before"
    "unat (1000 :: u64) + unat (50 :: u64) * 2400000 \<le> unat (120001000 :: u64)"
    "list_all (other_step 16) ?after"
    by (simp_all add: cancels_def sleep_state_other_entry mk_entry_simps env0_simps)
  from timer_sleep_wakes_exactly_once[OF sleep_fixture_hyps t]
  obtain s1 where s1: "hardware_deck_process env0 1000 16 sleep_state = Returned (1, s1)"
      "state (entries s1 16) = EVENT_STATUS_SUSPENDED"
    and rest: "\<And>s2. run_steps env0 ?before s1 = Some s2 \<Longrightarrow>
              completions 16 s1 s2 = 0 \<and>
              state (entries s2 16) = EVENT_STATUS_SUSPENDED \<and>
              completions 16 s2 (timer_check_expired env0 120001000 s2) = 1 \<and>
              state (entries (timer_check_expired env0 120001000 s2) 16) = EVENT_STATUS_PROCESSING \<and>
              \<not> active (timers (timer_check_expired env0 120001000 s2) 0) \<and>
              (\<forall>s4. run_steps env0 ?after (timer_check_expired env0 120001000 s2) = Some s4 \<longrightarrow>
                 completions 16 s1 s4 = 1 \<and>
                 state (entries s4 16) = EVENT_STATUS_PROCESSING)"
    by blast
  have nw: "list_all (never_waits sleep_state) ?before" "list_all (never_waits sleep_state) ?after"
    by (simp_all add: sleep_state_other_entry mk_entry_simps EVENT_CONSOLE_READ_LINE_def)
  have "same_events sleep_state s1"
    using process_frame[OF s1(1)] by (simp add: frame_def same_events_def)
  from run_steps_returns[OF this nw(1), of env0]
  obtain s2 where s2: "run_steps env0 ?before s1 = Some s2" "same_events sleep_state s2" by blast
  have "same_events sleep_state (timer_check_expired env0 120001000 s2)"
    using s2(2) by (simp add: same_events_def sweep_event_copy)
  from run_steps_returns[OF this nw(2), of env0]
  obtain s4 where s4: "run_steps env0 ?after (timer_check_expired env0 120001000 s2) = Some s4"
    by blast
  from rest[OF s2(1)] s4 s1 s2(1) show ?thesis by blast
qed

section \<open>User library: payload bounds\<close>

lemma memcpy_fits:
  "d + n \<le> length dest \<Longrightarrow>
   memcpy dest d src n = Some (take d dest @ map src [0..<n] @ drop (d + n) dest)"
proof (induction n arbitrary: dest d src)
  case 0
  then show ?case by simp
next
  case (Suc n)
  have d: "d < length dest" using Suc.prems by simp
  have l: "Suc d + n \<le> length (dest[d := src 0])" using Suc.prems by simp
  have m: "map src [0..<Suc n] = src 0 # map (\<lambda>i. src (Suc i)) [0..<n]"
    by (simp add: upt_conv_Cons map_Suc_upt[symmetric] del: upt_Suc)
  have t: "take (Suc d) (dest[d := src 0]) = take d dest @ [src 0]"
    using d by (simp add: take_Suc_conv_app_nth)
  show ?case
    using d Suc.IH[OF l] by (simp add: buf_write_def m t del: upt_Suc)
qed

lemma memcpy_overrun:
  "length dest < d + n \<Longrightarrow> 0 < n \<Longrightarrow> memcpy dest d src n = None"
proof (induction n arbitrary: dest d src)
  case 0
  then show ?case by simp
next
  case (Suc n)
  show ?case
  proof (cases "d < length dest")
    case False
    then show ?thesis by (simp add: buf_write_def)
  next
    case True
    with Suc.prems have "length (dest[d := src 0]) < Suc d + n" "0 < n" by simp_all
    from Suc.IH[OF this] True show ?thesis by (simp add: buf_write_def)
  qed
qed

lemma le_bytes_4: "length (le_bytes 4 v) = 4" "map (bytes_at (le_bytes 4 v)) [0..<4] = le_bytes 4 v"
  by (simp_all add: le_bytes_def bytes_at_def upt_rec)

lemma store_u32_fits:
  assumes "d + 4 \<le> length dest"
  shows "store_u32 dest d v = Some (take d dest @ le_bytes 4 v @ drop (d + 4) dest)"
  unfolding store_u32_def using memcpy_fits[OF assms, of "bytes_at (le_bytes 4 v)"]
  by (simp only: le_bytes_4)

lemma clamp_unat:
  fixes n :: u64
  assumes "c < 2 ^ 64"
  shows "unat (if n > of_nat c then of_nat c else n) = min (unat n) c"
proof -
  have c: "unat (of_nat c :: u64) = c" using assms by (simp add: unat_of_nat)
  show ?thesis by (simp add: word_less_nat_alt c min_def)
qed

lemma bytes_at_copied:
  assumes "m \<le> n"
  shows "bytes_at (map src [0..<m] @ drop m (replicate n 0)) = (\<lambda>i. if i < m then src i else 0)"
proof
  fix i
  show "bytes_at (map src [0..<m] @ drop m (replicate n 0)) i = (if i < m then src i else 0)"
    using assms by (simp add: bytes_at_def nth_append)
qed

lemma bytes_at_zero: "bytes_at (replicate n 0) = (\<lambda>i. 0)"
  by (rule ext) (simp add: bytes_at_def)

lemma build_event_result:
  "build_event ty pre payload n u =
     Returned (\<lparr>ev_id = next_event_id u, user_id = 1, ev_type = ty, ev_pad = 0, timestamp = 0,
                route = (\<lambda>i. 0)(0 := pre, 1 := 0),
                data = (\<lambda>i. if i < min (unat n) EVENT_DATA_SIZE
                             then (case payload of None \<Rightarrow> 0 | Some src \<Rightarrow> src i) else 0)\<rparr>,
               u\<lparr>next_event_id := next_event_id u + 1\<rparr>)"
proof (cases payload)
  case None
  show ?thesis by (simp add: None build_event_def bytes_at_zero cong: if_cong)
next
  case (Some src)
  show ?thesis
  proof (cases "n = 0")
    case True
    then show ?thesis using Some by (simp add: build_event_def bytes_at_zero)
  next
    case False
    define m where "m = min (unat n) EVENT_DATA_SIZE"
    have m: "unat (if n > of_nat EVENT_DATA_SIZE then of_nat EVENT_DATA_SIZE else n) = m"
      unfolding m_def by (rule clamp_unat) (simp add: EVENT_DATA_SIZE_def)
    have le: "m \<le> EVENT_DATA_SIZE" by (simp add: m_def)
    then have "0 + m \<le> length (replicate EVENT_DATA_SIZE (0 :: u8))" by simp
    from memcpy_fits[OF this, of src]
    have c: "memcpy (replicate EVENT_DATA_SIZE 0) 0 src m =
             Some (map src [0..<m] @ drop m (replicate EVENT_DATA_SIZE 0))" by simp
    have pos: "0 < n" using False by (simp add: word_greater_zero_iff)
    show ?thesis
      unfolding build_event_def Let_def
      by (simp only: Some option.case pos if_True m[unfolded m_def] c[unfolded m_def]
          bytes_at_copied[OF le, unfolded m_def])
  qed
qed

lemma execute_event_returns:
  "\<exists>r. execute_event k ty pre payload n out u = Returned r"
  unfolding execute_event_def Let_def build_event_result
  by (simp split: prod.splits option.splits)

lemma drop_past_prefix:
  "length xs = a \<Longrightarrow> drop (a + n) (xs @ drop a ys) = drop (a + n) ys"
  by (simp add: add.commute)

lemma print_payload_result:
  "print_payload k cs len0 =
     Returned (le_bytes 4 (ucast (if len0 > 220 then 220 else len0) :: u32) @
               map (bytes_at cs) [0..<min (unat len0) 220] @
               drop (4 + min (unat len0) 220) (map (stack k) [0..<EVENT_DATA_SIZE]),
               if len0 > 220 then 220 else len0)"
proof -
  define len where "len = (if len0 > 220 then 220 else len0)"
  define p0 where "p0 = map (stack k) [0..<EVENT_DATA_SIZE]"
  define p1 where "p1 = le_bytes 4 (ucast len :: u32) @ drop 4 p0"
  have len': "(if len0 > of_nat (EVENT_DATA_SIZE - 4) then of_nat (EVENT_DATA_SIZE - 4) else len0) = len"
    by (simp add: len_def EVENT_DATA_SIZE_def)
  have l0: "length p0 = 224" by (simp add: p0_def EVENT_DATA_SIZE_def)
  have m: "unat len = min (unat len0) 220"
    by (simp add: len_def word_less_nat_alt min_def)
  have s1: "store_u32 p0 0 (ucast len) = Some p1"
    using store_u32_fits[of 0 p0 "ucast len"] l0 by (simp add: p1_def)
  have l1: "length p1 = 224" by (simp add: p1_def l0 le_bytes_4)
  have "4 + unat len \<le> length p1" by (simp add: l1 m)
  from memcpy_fits[OF this, of "bytes_at cs"]
  have s2: "memcpy p1 4 (bytes_at cs) (unat len) =
            Some (le_bytes 4 (ucast len :: u32) @ map (bytes_at cs) [0..<unat len] @ drop (4 + unat len) p0)"
    by (simp add: p1_def le_bytes_4 l0 drop_past_prefix del: drop_append)
  have "print_payload k cs len0 =
        Returned (le_bytes 4 (ucast len :: u32) @ map (bytes_at cs) [0..<unat len] @ drop (4 + unat len) p0, len)"
    by (simp only: print_payload_def Let_def len' p0_def[symmetric] s1 s2 option.case)
  then show ?thesis by (simp only: m) (simp only: len_def p0_def)
qed

lemma print_attr_payload_result:
  "print_attr_payload k cs attr len0 =
     Returned (attr # le_bytes 4 (ucast (if len0 > 219 then 219 else len0) :: u32) @
               map (bytes_at cs) [0..<min (unat len0) 219] @
               drop (5 + min (unat len0) 219) (map (stack k) [0..<EVENT_DATA_SIZE]),
               if len0 > 219 then 219 else len0)"
proof -
  define len where "len = (if len0 > 219 then 219 else len0)"
  define p0 where "p0 = map (stack k) [0..<EVENT_DATA_SIZE]"
  define pa where "pa = p0[0 := attr]"
  define p1 where "p1 = attr # le_bytes 4 (ucast len :: u32) @ drop 5 p0"
  have len': "(if len0 > of_nat (EVENT_DATA_SIZE - 5) then of_nat (EVENT_DATA_SIZE - 5) else len0) = len"
    by (simp add: len_def EVENT_DATA_SIZE_def)
  have l0: "length p0 = 224" by (simp add: p0_def EVENT_DATA_SIZE_def)
  have m: "unat len = min (unat len0) 219"
    by (simp add: len_def word_less_nat_alt min_def)
  have la: "length pa = 224" by (simp add: pa_def l0)
  have s0: "buf_write p0 0 attr = Some pa" by (simp add: buf_write_def pa_def l0)
  have ta: "take 1 pa = [attr]" "drop 5 pa = drop 5 p0"
    using l0 by (simp_all add: pa_def take_Suc_conv_app_nth drop_update_cancel)
  have s1: "store_u32 pa 1 (ucast len) = Some p1"
    using store_u32_fits[of 1 pa "ucast len"] la ta by (simp add: p1_def)
  have l1: "length p1 = 224" by (simp add: p1_def l0 le_bytes_4)
  have "5 + unat len \<le> length p1" by (simp add: l1 m)
  from memcpy_fits[OF this, of "bytes_at cs"]
  have s2: "memcpy p1 5 (bytes_at cs) (unat len) =
            Some (attr # le_bytes 4 (ucast len :: u32) @ map (bytes_at cs) [0..<unat len] @ drop (5 + unat len) p0)"
    using drop_past_prefix[of "attr # le_bytes 4 (ucast len :: u32)" 5 "unat len" p0]
    by (simp add: p1_def le_bytes_4 l0 del: drop_append)
  have "print_attr_payload k cs attr len0 =
        Returned (attr # le_bytes 4 (ucast len :: u32) @ map (bytes_at cs) [0..<unat len] @ drop (5 + unat len) p0, len)"
    by (simp only: print_attr_payload_def Let_def len' p0_def[symmetric] s0 s1 s2 option.case)
  then show ?thesis by (simp only: m) (simp only: len_def p0_def)
qed

lemma submit_returns:
  "\<exists>u'. (case execute_event k ty pre p n out u of
            Blocked \<Rightarrow> Blocked
          | Out_of_bounds \<Rightarrow> Out_of_bounds
          | Returned (r, resp, x) \<Rightarrow> Returned x) = Returned u'"
proof -
  obtain r where "execute_event k ty pre p n out u = Returned r"
    using execute_event_returns by blast
  then show ?thesis by (cases r) simp
qed

lemma print_returns: "\<exists>u'. print k str u = Returned u'"
proof (cases str)
  case None
  then show ?thesis by (simp add: print_def)
next
  case (Some cs)
  show ?thesis
  proof (cases "(of_nat (strlen cs) :: u64) = 0")
    case True
    then show ?thesis using Some by (simp add: print_def)
  next
    case False
    obtain p n where pp: "print_payload k cs (of_nat (strlen cs)) = Returned (p, n)"
      by (rule that[OF print_payload_result])
    from submit_returns[of k EVENT_CONSOLE_WRITE 3 "Some (bytes_at p)" "4 + n" None u]
    obtain u' where "(case execute_event k EVENT_CONSOLE_WRITE 3 (Some (bytes_at p)) (4 + n) None u of
            Blocked \<Rightarrow> Blocked
          | Out_of_bounds \<Rightarrow> Out_of_bounds
          | Returned (r, resp, x) \<Rightarrow> Returned x) = Returned u'" by blast
    then show ?thesis using Some False pp by (simp add: print_def Let_def)
  qed
qed

lemma print_attr_returns: "\<exists>u'. print_attr k str attr u = Returned u'"
proof (cases str)
  case None
  then show ?thesis by (simp add: print_attr_def)
next
  case (Some cs)
  show ?thesis
  proof (cases "(of_nat (strlen cs) :: u64) = 0")
    case True
    then show ?thesis using Some by (simp add: print_attr_def)
  next
    case False
    obtain p n where pp: "print_attr_payload k cs attr (of_nat (strlen cs)) = Returned (p, n)"
      by (rule that[OF print_attr_payload_result])
    from submit_returns[of k EVENT_CONSOLE_WRITE_ATTR 3 "Some (bytes_at p)" "5 + n" None u]
    obtain u' where "(case execute_event k EVENT_CONSOLE_WRITE_ATTR 3 (Some (bytes_at p)) (5 + n) None u of
            Blocked \<Rightarrow> Blocked
          | Out_of_bounds \<Rightarrow> Out_of_bounds
          | Returned (r, resp, x) \<Rightarrow> Returned x) = Returned u'" by blast
    then show ?thesis using Some False pp by (simp add: print_attr_def Let_def)
  qed
qed

lemma strlen_le: "strlen cs \<le> length cs"
  by (induction cs) simp_all

lemma strlen_replicate: "c \<noteq> 0 \<Longrightarrow> strlen (replicate n c) = n"
  by (induction n) simp_all

lemma map_bytes_at_take: "m \<le> length cs \<Longrightarrow> map (bytes_at cs) [0..<m] = take m cs"
  by (rule nth_equalityI) (simp_all add: bytes_at_def)

lemma string_length_word: "unat (of_nat (strlen cs) :: u64) \<le> length cs"
proof -
  have "unat (of_nat (strlen cs) :: u64) \<le> strlen cs" by (simp add: unat_of_nat)
  then show ?thesis using strlen_le[of cs] by simp
qed

lemma print_payload_layout:
  "\<exists>p len. print_payload k cs (of_nat (strlen cs)) = Returned (p, len) \<and>
     length p = EVENT_DATA_SIZE \<and>
     unat len = min (unat (of_nat (strlen cs) :: u64)) (EVENT_DATA_SIZE - 4) \<and>
     4 + unat len \<le> EVENT_DATA_SIZE \<and>
     take 4 p = le_bytes 4 (ucast len :: u32) \<and>
     take (unat len) (drop 4 p) = take (unat len) cs"
proof -
  define L where "L = (of_nat (strlen cs) :: u64)"
  define len where "len = (if L > 220 then 220 else L)"
  define m where "m = min (unat L) 220"
  define p where "p = le_bytes 4 (ucast len :: u32) @ map (bytes_at cs) [0..<m] @
                      drop (4 + m) (map (stack k) [0..<EVENT_DATA_SIZE])"
  have r: "print_payload k cs L = Returned (p, len)"
    unfolding p_def len_def m_def by (rule print_payload_result)
  have ul: "unat len = m" by (simp add: len_def m_def word_less_nat_alt min_def)
  have mc: "m \<le> length cs" using string_length_word[of cs] by (simp add: m_def L_def)
  have m220: "m \<le> 220" by (simp add: m_def)
  have lp: "length p = EVENT_DATA_SIZE" using m220 by (simp add: p_def le_bytes_4 EVENT_DATA_SIZE_def)
  have t4: "take 4 p = le_bytes 4 (ucast len :: u32)" by (simp add: p_def le_bytes_4)
  have d4: "take m (drop 4 p) = take m cs"
    using mc by (simp add: p_def le_bytes_4 map_bytes_at_take[OF mc])
  show ?thesis
    using r lp ul m220 t4 d4 unfolding L_def[symmetric]
    by (intro exI[of _ p] exI[of _ len]) (simp add: m_def EVENT_DATA_SIZE_def)
qed

lemma print_attr_payload_layout:
  "\<exists>p len. print_attr_payload k cs attr (of_nat (strlen cs)) = Returned (p, len) \<and>
     length p = EVENT_DATA_SIZE \<and>
     unat len = min (unat (of_nat (strlen cs) :: u64)) (EVENT_DATA_SIZE - 5) \<and>
     5 + unat len \<le> EVENT_DATA_SIZE \<and>
     take 5 p = attr # le_bytes 4 (ucast len :: u32) \<and>
     take (unat len) (drop 5 p) = take (unat len) cs"
proof -
  define L where "L = (of_nat (strlen cs) :: u64)"
  define len where "len = (if L > 219 then 219 else L)"
  define m where "m = min (unat L) 219"
  define p where "p = attr # le_bytes 4 (ucast len :: u32) @ map (bytes_at cs) [0..<m] @
                      drop (5 + m) (map (stack k) [0..<EVENT_DATA_SIZE])"
  have r: "print_attr_payload k cs attr L = Returned (p, len)"
    unfolding p_def len_def m_def by (rule print_attr_payload_result)
  have ul: "unat len = m" by (simp add: len_def m_def word_less_nat_alt min_def)
  have mc: "m \<le> length cs" using string_length_word[of cs] by (simp add: m_def L_def)
  have m219: "m \<le> 219" by (simp add: m_def)
  have lp: "length p = EVENT_DATA_SIZE" using m219 by (simp add: p_def le_bytes_4 EVENT_DATA_SIZE_def)
  have t5: "take 5 p = attr # le_bytes 4 (ucast len :: u32)" by (simp add: p_def le_bytes_4)
  have d5: "take m (drop 5 p) = take m cs"
    using mc by (simp add: p_def le_bytes_4 map_bytes_at_take[OF mc])
  show ?thesis
    using r lp ul m219 t5 d5 unfolding L_def[symmetric]
    by (intro exI[of _ p] exI[of _ len]) (simp add: m_def EVENT_DATA_SIZE_def)
qed

text \<open>
  Claim C9.  Every store of \<open>execute_event\<close>, \<open>print\<close> and \<open>print_attr\<close> into a payload
  region is checked against the region's \<open>EVENT_DATA_SIZE\<close> bytes, and none falls outside:
  for every payload, payload size, string and attribute the three functions return.
  \<open>execute_event\<close> copies \<open>min payload_size EVENT_DATA_SIZE\<close> bytes to the start of
  \<open>ev.data\<close> and leaves the rest of it zero.  \<open>print\<close> cuts the string down to
  \<open>EVENT_DATA_SIZE - 4\<close> bytes and \<open>print_attr\<close> to \<open>EVENT_DATA_SIZE - 5\<close>, so that the
  header and the string end at or before the last byte of the \<open>EVENT_DATA_SIZE\<close> byte
  array they are built in.
\<close>

theorem payload_writes_stay_in_region:
  "(\<exists>ev u'. build_event ty pre payload n u = Returned (ev, u') \<and>
      data ev = (\<lambda>i. if i < min (unat n) EVENT_DATA_SIZE
                      then (case payload of None \<Rightarrow> 0 | Some src \<Rightarrow> src i) else 0)) \<and>
   (\<exists>r. execute_event k ty pre payload n out u = Returned r) \<and>
   (\<exists>p len. print_payload k cs (of_nat (strlen cs)) = Returned (p, len) \<and>
      length p = EVENT_DATA_SIZE \<and>
      unat len = min (unat (of_nat (strlen cs) :: u64)) (EVENT_DATA_SIZE - 4) \<and>
      4 + unat len \<le> EVENT_DATA_SIZE \<and>
      take 4 p = le_bytes 4 (ucast len :: u32) \<and>
      take (unat len) (drop 4 p) = take (unat len) cs) \<and>
   (\<exists>u'. print k str u = Returned u') \<and>
   (\<exists>p len. print_attr_payload k cs attr (of_nat (strlen cs)) = Returned (p, len) \<and>
      length p = EVENT_DATA_SIZE \<and>
      unat len = min (unat (of_nat (strlen cs) :: u64)) (EVENT_DATA_SIZE - 5) \<and>
      5 + unat len \<le> EVENT_DATA_SIZE \<and>
      take 5 p = attr # le_bytes 4 (ucast len :: u32) \<and>
      take (unat len) (drop 5 p) = take (unat len) cs) \<and>
   (\<exists>u'. print_attr k str attr u = Returned u')"
proof (intro conjI)
  show "\<exists>ev u'. build_event ty pre payload n u = Returned (ev, u') \<and>
      data ev = (\<lambda>i. if i < min (unat n) EVENT_DATA_SIZE
                      then (case payload of None \<Rightarrow> 0 | Some src \<Rightarrow> src i) else 0)"
    unfolding build_event_result by simp
  show "\<exists>r. execute_event k ty pre payload n out u = Returned r"
    by (rule execute_event_returns)
  show "\<exists>u'. print k str u = Returned u'" by (rule print_returns)
  show "\<exists>u'. print_attr k str attr u = Returned u'" by (rule print_attr_returns)
  show "\<exists>p len. print_payload k cs (of_nat (strlen cs)) = Returned (p, len) \<and>
      length p = EVENT_DATA_SIZE \<and>
      unat len = min (unat (of_nat (strlen cs) :: u64)) (EVENT_DATA_SIZE - 4) \<and>
      4 + unat len \<le> EVENT_DATA_SIZE \<and>
      take 4 p = le_bytes 4 (ucast len :: u32) \<and>
      take (unat len) (drop 4 p) = take (unat len) cs"
    by (rule print_payload_layout)
  show "\<exists>p len. print_attr_payload k cs attr (of_nat (strlen cs)) = Returned (p, len) \<and>
      length p = EVENT_DATA_SIZE \<and>
      unat len = min (unat (of_nat (strlen cs) :: u64)) (EVENT_DATA_SIZE - 5) \<and>
      5 + unat len \<le> EVENT_DATA_SIZE \<and>
      take 5 p = attr # le_bytes 4 (ucast len :: u32) \<and>
      take (unat len) (drop 5 p) = take (unat len) cs"
    by (rule print_attr_payload_layout)
qed

theorem payload_writes_stay_in_region_witness:
  "(\<exists>ev u'. build_event 70 3 (Some (\<lambda>i. 0x41)) 1000 ulib_boot = Returned (ev, u') \<and>
      data ev 223 = 0x41 \<and> data ev 224 = 0) \<and>
   (\<exists>r. execute_event ulib_env0 70 3 (Some (\<lambda>i. 0x41)) 1000 None ulib_boot = Returned r) \<and>
   (\<exists>p len. print_payload ulib_env0 (replicate 300 0x41) 300 = Returned (p, len) \<and>
      length p = 224 \<and> unat len = 220 \<and> take 4 p = [220, 0, 0, 0] \<and>
      take 220 (drop 4 p) = replicate 220 0x41) \<and>
   (\<exists>u'. print ulib_env0 (Some (replicate 300 0x41)) ulib_boot = Returned u') \<and>
   (\<exists>p len. print_attr_payload ulib_env0 (replicate 300 0x41) 0x0F 300 = Returned (p, len) \<and>
      length p = 224 \<and> unat len = 219 \<and> take 5 p = [0x0F, 219, 0, 0, 0] \<and>
      take 219 (drop 5 p) = replicate 219 0x41) \<and>
   (\<exists>u'. print_attr ulib_env0 (Some (replicate 300 0x41)) 0x0F ulib_boot = Returned u')"
proof -
  have s: "strlen (replicate 300 (0x41 :: u8)) = 300" by (rule strlen_replicate) simp
  have b: "le_bytes 4 (220 :: u32) = [220, 0, 0, 0]" "le_bytes 4 (219 :: u32) = [219, 0, 0, 0]"
    by (simp_all add: le_bytes_def upt_rec)
  note t = payload_writes_stay_in_region[of 70 3 "Some (\<lambda>i. 0x41)" 1000 ulib_boot ulib_env0 None
      "replicate 300 0x41" "Some (replicate 300 0x41)" "0x0F", unfolded s]
  have 1: "\<exists>ev u'. build_event 70 3 (Some (\<lambda>i. 0x41)) 1000 ulib_boot = Returned (ev, u') \<and>
      data ev 223 = 0x41 \<and> data ev 224 = 0"
    using t[THEN conjunct1] by (auto simp: EVENT_DATA_SIZE_def)
  have 3: "\<exists>p len. print_payload ulib_env0 (replicate 300 0x41) 300 = Returned (p, len) \<and>
      length p = 224 \<and> unat len = 220 \<and> take 4 p = [220, 0, 0, 0] \<and>
      take 220 (drop 4 p) = replicate 220 0x41"
  proof -
    from t[THEN conjunct2, THEN conjunct2, THEN conjunct1]
    obtain p len where p: "print_payload ulib_env0 (replicate 300 0x41) 300 = Returned (p, len)"
      "length p = EVENT_DATA_SIZE" "unat len = min (unat (300 :: u64)) (EVENT_DATA_SIZE - 4)"
      "take 4 p = le_bytes 4 (ucast len :: u32)"
      "take (unat len) (drop 4 p) = take (unat len) (replicate 300 0x41)"
      by auto
    have u: "unat len = 220" using p(3) by (simp add: EVENT_DATA_SIZE_def)
    then have "unat len = unat (220 :: u64)" by simp
    then have "len = 220" by (simp only: word_unat_eq_iff)
    then show ?thesis using p u b by (intro exI[of _ p] exI[of _ len]) (simp add: EVENT_DATA_SIZE_def)
  qed
  have 5: "\<exists>p len. print_attr_payload ulib_env0 (replicate 300 0x41) 0x0F 300 = Returned (p, len) \<and>
      length p = 224 \<and> unat len = 219 \<and> take 5 p = [0x0F, 219, 0, 0, 0] \<and>
      take 219 (drop 5 p) = replicate 219 0x41"
  proof -
    from t[THEN conjunct2, THEN conjunct2, THEN conjunct2, THEN conjunct2, THEN conjunct1]
    obtain p len where p: "print_attr_payload ulib_env0 (replicate 300 0x41) 0x0F 300 = Returned (p, len)"
      "length p = EVENT_DATA_SIZE" "unat len = min (unat (300 :: u64)) (EVENT_DATA_SIZE - 5)"
      "take 5 p = 0x0F # le_bytes 4 (ucast len :: u32)"
      "take (unat len) (drop 5 p) = take (unat len) (replicate 300 0x41)"
      by auto
    have u: "unat len = 219" using p(3) by (simp add: EVENT_DATA_SIZE_def)
    then have "unat len = unat (219 :: u64)" by simp
    then have "len = 219" by (simp only: word_unat_eq_iff)
    then show ?thesis using p u b by (intro exI[of _ p] exI[of _ len]) (simp add: EVENT_DATA_SIZE_def)
  qed
  from 1 3 5 t show ?thesis by blast
qed

end
